theory Spec2Isabelle
  imports Complex_Main "HOL-Library.Monad_Syntax" "HOL-Library.Log_Nat"
begin

section \<open>JavaScript values\<close>

text \<open>
  A JavaScript string is a sequence of UTF-16 code units. The separators of
  \<open>normalizeTitle\<close> include the em dash (U+2014) and the en dash (U+2013), so the code units
  are natural numbers rather than 8-bit characters. \<open>js\<close> writes an ASCII literal.
\<close>

type_synonym jsstring = "nat list"

definition js :: "string \<Rightarrow> jsstring" where
  "js s = map of_char s"

text \<open>
  The values a field of a parsed JSON object can hold, together with \<open>Undefined\<close> (the
  value of reading an absent property) and \<open>NaN\<close> (which arithmetic on \<open>Undefined\<close>
  yields).

  A number is a double: \<open>Num x\<close> is the finite double of value \<open>x\<close> (both zeros have the
  value 0), and \<open>JSON.parse\<close> yields the two infinities for literals beyond the range.

  \<open>Object s\<close> is an array or an object; the script only ever tests such a value for
  truth, calls \<open>toLowerCase\<close> on it, or adds 1 to it, so all that the model keeps of it
  is the string \<open>s\<close> that its conversion to a primitive yields: the empty string for
  \<open>[]\<close>, \<open>[object Object]\<close> for \<open>{}\<close>, the joined elements for an array. (A parsed
  object with a property of its own named \<open>toString\<close>, and an array holding one, have no
  such string: their conversion raises a TypeError. These values are not modelled.)

  A TypeError, the only exception the functions below can raise, is the result \<open>None\<close>.
\<close>

datatype jsval =
  Undefined | Null | Bool bool | Num rat | PosInfinity | NegInfinity | NaN
  | Str jsstring | Object jsstring

text \<open>ToBoolean: what \<open>!v\<close>, \<open>v || d\<close> and \<open>if (v)\<close> test.\<close>

fun truthy :: "jsval \<Rightarrow> bool" where
  "truthy Undefined = False"
| "truthy Null = False"
| "truthy (Bool b) = b"
| "truthy (Num x) = (x \<noteq> 0)"
| "truthy PosInfinity = True"
| "truthy NegInfinity = True"
| "truthy NaN = False"
| "truthy (Str s) = (s \<noteq> [])"
| "truthy (Object s) = True"

text \<open>\<open>v || d\<close>.\<close>

definition jsOr :: "jsval \<Rightarrow> jsval \<Rightarrow> jsval" where
  "jsOr v d = (if truthy v then v else d)"

text \<open>
  The number value of a real number, that is its rounding to double precision (binary64,
  round to nearest, ties to even): \<open>binade x\<close> is the exponent \<open>e\<close> with
  \<open>2^e \<le> |x| < 2^(e+1)\<close>; the doubles of that binade are the multiples of \<open>2^(e-52)\<close>,
  and below \<open>2^(-1022)\<close> the multiples of \<open>2^(-1074)\<close>; a result of magnitude \<open>2^1024\<close>
  or more is an infinity.
\<close>

definition roundHalfEven :: "rat \<Rightarrow> int" where
  "roundHalfEven q =
     (let f = \<lfloor>q\<rfloor>; d = q - of_int f
      in if d < 1 / 2 then f else if d > 1 / 2 then f + 1 else if even f then f else f + 1)"

definition binade :: "rat \<Rightarrow> int" where
  "binade x =
     (let a = \<bar>x\<bar>
      in if a \<ge> 1 then bitlen \<lfloor>a\<rfloor> - 1 else - bitlen (\<lceil>1 / a\<rceil> - 1))"

definition toDouble :: "rat \<Rightarrow> jsval" where
  "toDouble x =
     (if x = 0 then Num 0
      else
        let u = 2 powi (max (binade x) (- 1022) - 52);
            y = of_int (roundHalfEven (x / u)) * u
        in if y \<ge> 2 powi 1024 then PosInfinity
           else if y \<le> - (2 powi 1024) then NegInfinity
           else Num y)"

text \<open>
  \<open>v + 1\<close>: a string operand, or an array or object (converted to a string), makes \<open>+\<close> a
  concatenation with \<open>"1"\<close> (code unit 49); every other value is converted to a number
  first (\<open>null\<close> and \<open>false\<close> to 0, \<open>true\<close> to 1, \<open>undefined\<close> to NaN), and the sum
  of two numbers is the double nearest to the exact sum.
\<close>

fun plusOne :: "jsval \<Rightarrow> jsval" where
  "plusOne (Num x) = toDouble (x + 1)"
| "plusOne PosInfinity = PosInfinity"
| "plusOne NegInfinity = NegInfinity"
| "plusOne (Str s) = Str (s @ [49])"
| "plusOne (Object s) = Str (s @ [49])"
| "plusOne (Bool b) = Num ((if b then 1 else 0) + 1)"
| "plusOne Null = Num 1"
| "plusOne Undefined = NaN"
| "plusOne NaN = NaN"

section \<open>String primitives used by the script\<close>

text \<open>
  The code units matched by \<open>\s\<close> in a regular expression and stripped by
  \<open>String.prototype.trim\<close>: the white space and line terminator code points of ECMAScript.
\<close>

definition isWhiteSpace :: "nat \<Rightarrow> bool" where
  "isWhiteSpace c =
     (c = 9 \<or> c = 10 \<or> c = 11 \<or> c = 12 \<or> c = 13 \<or> c = 32 \<or> c = 160 \<or> c = 5760
      \<or> (8192 \<le> c \<and> c \<le> 8202) \<or> c = 8232 \<or> c = 8233 \<or> c = 8239 \<or> c = 8287
      \<or> c = 12288 \<or> c = 65279)"

text \<open>\<open>s.trim()\<close>.\<close>

definition trim :: "jsstring \<Rightarrow> jsstring" where
  "trim s = rev (dropWhile isWhiteSpace (rev (dropWhile isWhiteSpace s)))"

text \<open>The character class of the separators: colon, hyphen, em dash, en dash.\<close>

definition isSeparator :: "nat \<Rightarrow> bool" where
  "isSeparator c = (c = 58 \<or> c = 45 \<or> c = 8212 \<or> c = 8211)"

text \<open>Replacing every separator by a space (a global \<open>replace\<close>).\<close>

definition replaceSeparators :: "jsstring \<Rightarrow> jsstring" where
  "replaceSeparators s = map (\<lambda>c. if isSeparator c then 32 else c) s"

text \<open>
  \<open>s.replace(/\s+/g, " ")\<close>: every maximal run of white space becomes one space.
  The flag says whether the previous code unit belonged to a run already replaced.
\<close>

fun collapseWhiteSpace :: "bool \<Rightarrow> jsstring \<Rightarrow> jsstring" where
  "collapseWhiteSpace inRun [] = []"
| "collapseWhiteSpace inRun (c # cs) =
     (if isWhiteSpace c
      then (if inRun then collapseWhiteSpace True cs else 32 # collapseWhiteSpace True cs)
      else c # collapseWhiteSpace False cs)"

text \<open>\<open>s.startsWith(p)\<close>, the test behind a regular expression anchored with \<open>^\<close>.\<close>

fun startsWith :: "jsstring \<Rightarrow> jsstring \<Rightarrow> bool" where
  "startsWith s [] = True"
| "startsWith [] (p # ps) = False"
| "startsWith (c # cs) (p # ps) = (c = p \<and> startsWith cs ps)"

text \<open>\<open>s.includes(n)\<close>: \<open>n\<close> occurs in \<open>s\<close> as a contiguous run.\<close>

fun includesStr :: "jsstring \<Rightarrow> jsstring \<Rightarrow> bool" where
  "includesStr [] n = (n = [])"
| "includesStr (c # cs) n = (startsWith (c # cs) n \<or> includesStr cs n)"

text \<open>
  \<open>s.split(d)\<close> for a separator of one code unit satisfying \<open>isSep\<close>; the empty string
  splits into one empty piece.
\<close>

fun splitOn :: "(nat \<Rightarrow> bool) \<Rightarrow> jsstring \<Rightarrow> jsstring list" where
  "splitOn isSep [] = [[]]"
| "splitOn isSep (c # cs) =
     (if isSep c then [] # splitOn isSep cs
      else (case splitOn isSep cs of
              [] \<Rightarrow> [[c]]
            | w # ws \<Rightarrow> (c # w) # ws))"

section \<open>Normalizer\<close>

text \<open>
  \<open>String.prototype.toLowerCase\<close> is a built-in whose Unicode case mapping is not part
  of the repository. Every function below takes it as the parameter \<open>lower\<close>, and the
  theorems hold for every such function. \<open>asciiLower\<close> is the instance used to evaluate
  the functions on concrete ASCII strings.
\<close>

definition asciiLower :: "jsstring \<Rightarrow> jsstring" where
  "asciiLower s = map (\<lambda>c. if 65 \<le> c \<and> c \<le> 90 then c + 32 else c) s"

text \<open>
  \<open>normalizeUrl\<close>: a falsy argument gives the empty string; on a string the four
  replacements run in order. Calling \<open>toLowerCase\<close> on a truthy value that is not a
  string throws a TypeError, which is the result \<open>None\<close>.
\<close>

definition stripProtocol :: "jsstring \<Rightarrow> jsstring" where
  "stripProtocol s =
     (if startsWith s (js ''https://'') then drop 8 s
      else if startsWith s (js ''http://'') then drop 7 s
      else s)"

definition stripWww :: "jsstring \<Rightarrow> jsstring" where
  "stripWww s = (if startsWith s (js ''www.'') then drop 4 s else s)"

definition stripTrailingSlashes :: "jsstring \<Rightarrow> jsstring" where
  "stripTrailingSlashes s = rev (dropWhile (\<lambda>c. c = 47) (rev s))"

definition stripFinalSlash :: "jsstring \<Rightarrow> jsstring" where
  "stripFinalSlash s = (if s \<noteq> [] \<and> last s = 47 then butlast s else s)"

definition normalizeUrl :: "(jsstring \<Rightarrow> jsstring) \<Rightarrow> jsval \<Rightarrow> jsstring option" where
  "normalizeUrl lower url =
     (if \<not> truthy url then Some []
      else (case url of
              Str s \<Rightarrow>
                Some (stripFinalSlash (stripTrailingSlashes (stripWww (stripProtocol (lower s)))))
            | _ \<Rightarrow> None))"

text \<open>
  \<open>normalizeTitle\<close>: lower case, trim, separators to spaces, runs of white space to one
  space, trim; with the same treatment of falsy values and of values that are not strings.
\<close>

definition normalizedTitle :: "(jsstring \<Rightarrow> jsstring) \<Rightarrow> jsstring \<Rightarrow> jsstring" where
  "normalizedTitle lower s =
     trim (collapseWhiteSpace False (replaceSeparators (trim (lower s))))"

definition normalizeTitle :: "(jsstring \<Rightarrow> jsstring) \<Rightarrow> jsval \<Rightarrow> jsstring option" where
  "normalizeTitle lower title =
     (if \<not> truthy title then Some []
      else (case title of
              Str s \<Rightarrow> Some (normalizedTitle lower s)
            | _ \<Rightarrow> None))"

section \<open>Similarity scorer\<close>

text \<open>
  The scores are the decimal literals of the script, as rationals: the script only compares
  them with each other and with the quotient of two small set sizes, and these comparisons
  come out the same on rationals.
\<close>

definition significantWords :: "jsstring \<Rightarrow> jsstring set" where
  "significantWords normalized =
     set (filter (\<lambda>w. length w > 2) (splitOn (\<lambda>c. c = 32) normalized))"

definition titleSimilarity :: "(jsstring \<Rightarrow> jsstring) \<Rightarrow> jsval \<Rightarrow> jsval \<Rightarrow> rat option" where
  "titleSimilarity lower title1 title2 =
     (if \<not> truthy title1 \<or> \<not> truthy title2 then Some 0
      else do {
        norm1 \<leftarrow> normalizeTitle lower title1;
        norm2 \<leftarrow> normalizeTitle lower title2;
        if norm1 = norm2 then Some 1
        else if includesStr norm1 norm2 \<or> includesStr norm2 norm1 then Some (9 / 10)
        else
          let words1 = significantWords norm1;
              words2 = significantWords norm2
          in if card words1 = 0 \<or> card words2 = 0 then Some 0
             else
               let intersection = {w \<in> words1. w \<in> words2};
                   union = words1 \<union> words2;
                   overlap = (of_nat (card intersection) / of_nat (card union) :: rat)
               in if overlap > 7 / 10 then Some (8 / 10)
                  else if overlap > 5 / 10 then Some (7 / 10)
                  else Some 0
      })"

definition urlSimilarity :: "(jsstring \<Rightarrow> jsstring) \<Rightarrow> jsval \<Rightarrow> jsval \<Rightarrow> rat option" where
  "urlSimilarity lower url1 url2 =
     (if \<not> truthy url1 \<or> \<not> truthy url2 then Some 0
      else do {
        norm1 \<leftarrow> normalizeUrl lower url1;
        norm2 \<leftarrow> normalizeUrl lower url2;
        if norm1 = norm2 then Some 1
        else
          let domain1 = hd (splitOn (\<lambda>c. c = 47) norm1);
              domain2 = hd (splitOn (\<lambda>c. c = 47) norm2)
          in if domain1 = domain2 then Some (7 / 10) else Some 0
      })"

section \<open>Matcher and reconciliation\<close>

text \<open>
  A resource object and the heap of objects. \<open>JSON.parse\<close> builds the two documents
  from two files; the arrays \<open>currentResources.resources\<close> and
  \<open>newResources.resources\<close> are lists of addresses of objects (every element of the
  arrays is an object), and the script writes \<open>weeks_on_list\<close> into the objects of the
  second array. \<open>bestMatch\<close> is a reference to a current resource, or \<open>null\<close>.
\<close>

record resource =
  title :: jsval
  source :: jsval
  type :: jsval
  weeks_on_list :: jsval

type_synonym addr = nat

type_synonym heap = "addr \<Rightarrow> resource"

datatype matchType = NoMatch | Exact | Fuzzy | Weak

record matchState =
  bestMatch :: "addr option"
  bestScore :: rat
  matchType :: matchType

record stats =
  exactMatched :: nat
  fuzzyMatched :: nat
  newCount :: nat

text \<open>The scoring strategy: the \<open>if\<close>/\<open>else if\<close> chain that assigns \<open>score\<close>.\<close>

definition score :: "rat \<Rightarrow> rat \<Rightarrow> rat" where
  "score titleSim urlSim =
     (if titleSim = 1 \<and> urlSim = 1 then 2
      else if titleSim \<ge> 9 / 10 \<and> urlSim \<ge> 7 / 10 then 18 / 10
      else if titleSim \<ge> 9 / 10 then 15 / 10
      else if titleSim \<ge> 8 / 10 \<and> urlSim \<ge> 7 / 10 then 13 / 10
      else if titleSim \<ge> 7 / 10 \<and> urlSim = 1 then 12 / 10
      else 0)"

text \<open>The score of one new resource against one current resource.\<close>

definition resourceScore ::
  "(jsstring \<Rightarrow> jsstring) \<Rightarrow> resource \<Rightarrow> resource \<Rightarrow> rat option" where
  "resourceScore lower newResource currentResource = do {
     titleSim \<leftarrow> titleSimilarity lower (title newResource) (title currentResource);
     urlSim \<leftarrow> urlSimilarity lower (source newResource) (source currentResource);
     Some (score titleSim urlSim)
   }"

text \<open>The label recorded with a new best score.\<close>

definition matchLabel :: "rat \<Rightarrow> matchType" where
  "matchLabel sc = (if sc \<ge> 2 then Exact else if sc \<ge> 13 / 10 then Fuzzy else Weak)"

text \<open>
  The body of the inner \<open>forEach\<close>, for the new resource at address \<open>a\<close> and the current
  resource at address \<open>c\<close>.
\<close>

definition compareCurrent ::
  "(jsstring \<Rightarrow> jsstring) \<Rightarrow> heap \<Rightarrow> addr \<Rightarrow> matchState \<Rightarrow> addr \<Rightarrow> matchState option" where
  "compareCurrent lower h a st c = do {
     sc \<leftarrow> resourceScore lower (h a) (h c);
     Some (if sc > bestScore st
           then \<lparr>bestMatch = Some c, bestScore = sc, matchType = matchLabel sc\<rparr>
           else st)
   }"

text \<open>The inner \<open>forEach\<close> over \<open>currentResourcesArray\<close>.\<close>

fun findBestMatch ::
  "(jsstring \<Rightarrow> jsstring) \<Rightarrow> heap \<Rightarrow> addr \<Rightarrow> matchState \<Rightarrow> addr list \<Rightarrow> matchState option" where
  "findBestMatch lower h a st [] = Some st"
| "findBestMatch lower h a st (c # cs) = do {
     st' \<leftarrow> compareCurrent lower h a st c;
     findBestMatch lower h a st' cs
   }"

definition initialMatch :: matchState where
  "initialMatch = \<lparr>bestMatch = None, bestScore = 0, matchType = NoMatch\<rparr>"

text \<open>The test \<open>bestMatch && bestScore >= 1.2\<close> that accepts a match.\<close>

definition accepted :: "matchState \<Rightarrow> bool" where
  "accepted st = (bestMatch st \<noteq> None \<and> bestScore st \<ge> 12 / 10)"

text \<open>
  The body of the outer \<open>forEach\<close>, for the new resource at address \<open>a\<close>: it returns the
  heap after the write to \<open>newResource.weeks_on_list\<close> and the three counters.
\<close>

definition updateResource ::
  "(jsstring \<Rightarrow> jsstring) \<Rightarrow> addr list \<Rightarrow> heap \<times> stats \<Rightarrow> addr \<Rightarrow> (heap \<times> stats) option" where
  "updateResource lower cur hs a = do {
     st \<leftarrow> findBestMatch lower (fst hs) a initialMatch cur;
     Some (if accepted st
           then ((fst hs)(a := (fst hs a)
                    \<lparr>weeks_on_list :=
                       plusOne (jsOr (weeks_on_list (fst hs (the (bestMatch st)))) (Num 1))\<rparr>),
                 if matchType st = Exact
                 then (snd hs)\<lparr>exactMatched := exactMatched (snd hs) + 1\<rparr>
                 else (snd hs)\<lparr>fuzzyMatched := fuzzyMatched (snd hs) + 1\<rparr>)
           else ((fst hs)(a := (fst hs a)\<lparr>weeks_on_list := Num 1\<rparr>),
                 (snd hs)\<lparr>newCount := newCount (snd hs) + 1\<rparr>))
   }"

text \<open>The outer \<open>forEach\<close> over \<open>newResources.resources\<close>; an exception ends it.\<close>

fun forEachNew ::
  "(jsstring \<Rightarrow> jsstring) \<Rightarrow> addr list \<Rightarrow> heap \<times> stats \<Rightarrow> addr list \<Rightarrow> (heap \<times> stats) option" where
  "forEachNew lower cur hs [] = Some hs"
| "forEachNew lower cur hs (a # as) = do {
     hs' \<leftarrow> updateResource lower cur hs a;
     forEachNew lower cur hs' as
   }"

text \<open>
  \<open>mergeAndUpdateResources\<close> without its file input and output. Each document is given by
  its \<open>resources\<close> property: \<open>Some\<close> of the array when the property is an array, \<open>None\<close>
  otherwise. The result is the heap, in which the returned document lives, and the
  counters the script prints.
\<close>

definition currentResourcesArray :: "addr list option \<Rightarrow> addr list" where
  "currentResourcesArray currentResources =
     (case currentResources of Some rs \<Rightarrow> rs | None \<Rightarrow> [])"

definition mergeAndUpdateResources ::
  "(jsstring \<Rightarrow> jsstring) \<Rightarrow> heap \<Rightarrow> addr list option \<Rightarrow> addr list option
     \<Rightarrow> (heap \<times> stats) option" where
  "mergeAndUpdateResources lower h currentResources newResources =
     (let zero = \<lparr>exactMatched = 0, fuzzyMatched = 0, newCount = 0\<rparr>
      in case newResources of
           Some rs \<Rightarrow> forEachNew lower (currentResourcesArray currentResources) (h, zero) rs
         | None \<Rightarrow> Some (h, zero))"

section \<open>Notions of the specification\<close>

text \<open>
  A field the script can compare without an exception: a string, or a falsy value
  (an absent field among them). A resource is well formed when its title and its source
  are such fields.
\<close>

fun stringOrFalsy :: "jsval \<Rightarrow> bool" where
  "stringOrFalsy (Str s) = True"
| "stringOrFalsy v = (\<not> truthy v)"

definition wellFormed :: "resource \<Rightarrow> bool" where
  "wellFormed r = (stringOrFalsy (title r) \<and> stringOrFalsy (source r))"

text \<open>
  The decision table of the matcher as the specification gives it: rows of a condition on
  the two similarities and a combined score, read from the top, the first row whose
  condition holds giving the score, and 0 when none does.
\<close>

definition decisionTable :: "((rat \<Rightarrow> rat \<Rightarrow> bool) \<times> rat) list" where
  "decisionTable =
     [(\<lambda>t u. t = 1 \<and> u = 1, 2),
      (\<lambda>t u. t \<ge> 9 / 10 \<and> u \<ge> 7 / 10, 18 / 10),
      (\<lambda>t u. t \<ge> 9 / 10, 15 / 10),
      (\<lambda>t u. t \<ge> 8 / 10 \<and> u \<ge> 7 / 10, 13 / 10),
      (\<lambda>t u. t \<ge> 7 / 10 \<and> u = 1, 12 / 10)]"

fun firstSatisfied :: "((rat \<Rightarrow> rat \<Rightarrow> bool) \<times> rat) list \<Rightarrow> rat \<Rightarrow> rat \<Rightarrow> rat" where
  "firstSatisfied [] t u = 0"
| "firstSatisfied (row # rows) t u = (if fst row t u then snd row else firstSatisfied rows t u)"

text \<open>
  The title similarity as the specification words it, on two strings: substring as an
  occurrence between a prefix and a suffix, tokens cut at every white space code unit, and
  the Jaccard overlap of the two sets of tokens longer than two code units.
\<close>

definition isSubstring :: "jsstring \<Rightarrow> jsstring \<Rightarrow> bool" where
  "isSubstring n s = (\<exists>p q. s = p @ n @ q)"

definition tokenSet :: "jsstring \<Rightarrow> jsstring set" where
  "tokenSet s = {t \<in> set (splitOn isWhiteSpace s). length t > 2}"

definition jaccard :: "jsstring set \<Rightarrow> jsstring set \<Rightarrow> rat" where
  "jaccard A B = of_nat (card (A \<inter> B)) / of_nat (card (A \<union> B))"

definition titleSimilaritySpec :: "(jsstring \<Rightarrow> jsstring) \<Rightarrow> jsstring \<Rightarrow> jsstring \<Rightarrow> rat" where
  "titleSimilaritySpec lower a b =
     (let na = normalizedTitle lower a; nb = normalizedTitle lower b
      in if a = [] \<or> b = [] then 0
         else if na = nb then 1
         else if isSubstring na nb \<or> isSubstring nb na then 9 / 10
         else if tokenSet na = {} \<or> tokenSet nb = {} then 0
         else if jaccard (tokenSet na) (tokenSet nb) > 7 / 10 then 8 / 10
         else if jaccard (tokenSet na) (tokenSet nb) > 5 / 10 then 7 / 10
         else 0)"

text \<open>
  A counter in the sense of the data model: a number that is at least 1. The values of a
  stored \<open>weeks_on_list\<close> from which the script computes such a counter are all but the
  negative numbers, the non-empty strings, and the arrays and objects.
\<close>

fun atLeastOne :: "jsval \<Rightarrow> bool" where
  "atLeastOne (Num x) = (x \<ge> 1)"
| "atLeastOne PosInfinity = True"
| "atLeastOne v = False"

fun usableCounter :: "jsval \<Rightarrow> bool" where
  "usableCounter (Num x) = (x \<ge> 0)"
| "usableCounter NegInfinity = False"
| "usableCounter (Str s) = (s = [])"
| "usableCounter (Object s) = False"
| "usableCounter v = True"



section \<open>Concrete inputs\<close>

text \<open>
  Resources and heaps for evaluating the script: \<open>book t s w\<close> is a resource with title
  \<open>t\<close>, source \<open>s\<close> and counter \<open>w\<close>; \<open>heapOf rs\<close> holds the resources \<open>rs\<close> at
  the addresses 0, 1, ...; \<open>outcome new r\<close> reads off a result \<open>r\<close> of the script the
  counters written to the new resources, and the three tallies.
\<close>

definition emptyResource :: resource where
  "emptyResource =
     \<lparr>title = Undefined, source = Undefined, type = Undefined, weeks_on_list = Undefined\<rparr>"

definition book :: "string \<Rightarrow> string \<Rightarrow> jsval \<Rightarrow> resource" where
  "book t s w =
     \<lparr>title = Str (js t), source = Str (js s), type = Str (js ''book''), weeks_on_list = w\<rparr>"

definition heapOf :: "resource list \<Rightarrow> heap" where
  "heapOf rs = (\<lambda>a. if a < length rs then rs ! a else emptyResource)"

definition outcome :: "addr list \<Rightarrow> (heap \<times> stats) option \<Rightarrow> (jsval list \<times> stats) option" where
  "outcome new r = map_option (\<lambda>(h, s). (map (\<lambda>a. weeks_on_list (h a)) new, s)) r"

text \<open>
  Three small stores. In \<open>variantsHeap\<close> the new resource at address 2 is a spelling
  variant of both current resources at 0 and 1; in \<open>weakHeap\<close> the new resource at 1 shares
  two of its three words and the URL with the current resource at 0; in \<open>urlOnlyHeap\<close> the
  new resource at 1 shares only the URL with the current resource at 0; in \<open>copyHeap\<close> the
  new resources at 2 and 3 copy the current resources at 0 and 1.
\<close>

definition variantsHeap :: heap where
  "variantsHeap =
     heapOf [book ''ab c'' ''x.y/z'' (Num 3), book ''Ab: c'' ''http://x.y/z'' (Num 5),
             book ''ab - c'' ''https://www.x.y/z/'' Undefined]"

definition weakHeap :: heap where
  "weakHeap =
     heapOf [book ''abc def'' ''x.y/z'' (Num 1), book ''abc ghi def'' ''x.y/z'' Undefined]"

definition urlOnlyHeap :: heap where
  "urlOnlyHeap = heapOf [book ''ab c'' ''x.y/z'' (Num 3), book ''qqq'' ''x.y/z'' Undefined]"


definition noStats :: stats where
  "noStats = \<lparr>exactMatched = 0, fuzzyMatched = 0, newCount = 0\<rparr>"



section \<open>The scoring strategy\<close>

lemma score_table: "score t u = firstSatisfied decisionTable t u"
  by (simp add: score_def decisionTable_def)

lemma score_nonneg: "0 \<le> score t u"
  by (simp add: score_def)


lemma score_pos_ge: "0 < score t u \<Longrightarrow> 12 / 10 \<le> score t u"
  by (simp add: score_def split: if_splits)

lemma score_low_title: "t < 7 / 10 \<Longrightarrow> score t u = 0"
  by (simp add: score_def)


section \<open>No exception on well-formed fields\<close>

lemma stringOrFalsy_cases: "stringOrFalsy v \<longleftrightarrow> (\<not> truthy v \<or> (\<exists>s. v = Str s))"
  by (cases v) auto

lemma titleSimilarity_falsy: "\<not> truthy t1 \<or> \<not> truthy t2 \<Longrightarrow> titleSimilarity lower t1 t2 = Some 0"
  by (auto simp: titleSimilarity_def)

lemma urlSimilarity_falsy: "\<not> truthy u1 \<or> \<not> truthy u2 \<Longrightarrow> urlSimilarity lower u1 u2 = Some 0"
  by (auto simp: urlSimilarity_def)

lemma titleSimilarity_total:
  assumes "stringOrFalsy t1" "stringOrFalsy t2"
  shows "\<exists>x. titleSimilarity lower t1 t2 = Some x"
proof (cases "\<not> truthy t1 \<or> \<not> truthy t2")
  case True
  then show ?thesis by (simp add: titleSimilarity_falsy)
next
  case False
  with assms obtain s1 s2 where "t1 = Str s1" "t2 = Str s2"
    by (auto simp: stringOrFalsy_cases)
  with False have "titleSimilarity lower t1 t2 \<noteq> None"
    by (simp add: titleSimilarity_def normalizeTitle_def Let_def del: not_None_eq)
  then show ?thesis by blast
qed

lemma urlSimilarity_total:
  assumes "stringOrFalsy u1" "stringOrFalsy u2"
  shows "\<exists>x. urlSimilarity lower u1 u2 = Some x"
proof (cases "\<not> truthy u1 \<or> \<not> truthy u2")
  case True
  then show ?thesis by (simp add: urlSimilarity_falsy)
next
  case False
  with assms obtain s1 s2 where "u1 = Str s1" "u2 = Str s2"
    by (auto simp: stringOrFalsy_cases)
  with False have "urlSimilarity lower u1 u2 \<noteq> None"
    by (simp add: urlSimilarity_def normalizeUrl_def Let_def del: not_None_eq)
  then show ?thesis by blast
qed

lemma resourceScore_total:
  assumes "wellFormed n" "wellFormed c"
  shows "\<exists>t u. titleSimilarity lower (title n) (title c) = Some t
           \<and> urlSimilarity lower (source n) (source c) = Some u
           \<and> resourceScore lower n c = Some (score t u)"
proof -
  from assms obtain t where t: "titleSimilarity lower (title n) (title c) = Some t"
    using titleSimilarity_total [of "title n" "title c" lower] by (auto simp: wellFormed_def)
  from assms obtain u where u: "urlSimilarity lower (source n) (source c) = Some u"
    using urlSimilarity_total [of "source n" "source c" lower] by (auto simp: wellFormed_def)
  from t u show ?thesis by (simp add: resourceScore_def)
qed

lemma resourceScore_SomeD:
  "resourceScore lower n c = Some sc \<Longrightarrow>
     \<exists>t u. titleSimilarity lower (title n) (title c) = Some t
         \<and> urlSimilarity lower (source n) (source c) = Some u \<and> sc = score t u"
  by (auto simp: resourceScore_def split: bind_splits)

section \<open>The inner loop\<close>

text \<open>
  What the inner loop returns when started in any state: the state it was given when no
  score exceeds its best score, and otherwise the first current resource of maximal score.
\<close>

lemma findBestMatch_char:
  assumes "\<forall>c\<in>set cs. resourceScore lower (h a) (h c) = Some (f c)"
  shows "\<exists>st'. findBestMatch lower h a st cs = Some st' \<and>
           ((\<forall>c\<in>set cs. f c \<le> bestScore st) \<and> st' = st
            \<or> (\<exists>i<length cs. st' = \<lparr>bestMatch = Some (cs ! i), bestScore = f (cs ! i),
                                     matchType = matchLabel (f (cs ! i))\<rparr>
                  \<and> bestScore st < f (cs ! i)
                  \<and> (\<forall>j<length cs. f (cs ! j) \<le> f (cs ! i))
                  \<and> (\<forall>j<i. f (cs ! j) < f (cs ! i))))"
  using assms
proof (induction cs arbitrary: st)
  case Nil
  then show ?case by simp
next
  case (Cons c cs)
  let ?st1 = "if f c > bestScore st
              then \<lparr>bestMatch = Some c, bestScore = f c, matchType = matchLabel (f c)\<rparr> else st"
  have step: "compareCurrent lower h a st c = Some ?st1"
    using Cons.prems by (simp add: compareCurrent_def)
  from Cons.prems have "\<forall>c\<in>set cs. resourceScore lower (h a) (h c) = Some (f c)" by simp
  from Cons.IH [OF this, of ?st1] obtain st' where
    run: "findBestMatch lower h a ?st1 cs = Some st'" and
    alt: "(\<forall>c\<in>set cs. f c \<le> bestScore ?st1) \<and> st' = ?st1
          \<or> (\<exists>i<length cs. st' = \<lparr>bestMatch = Some (cs ! i), bestScore = f (cs ! i),
                                     matchType = matchLabel (f (cs ! i))\<rparr>
                \<and> bestScore ?st1 < f (cs ! i)
                \<and> (\<forall>j<length cs. f (cs ! j) \<le> f (cs ! i))
                \<and> (\<forall>j<i. f (cs ! j) < f (cs ! i)))"
    by blast
  have res: "findBestMatch lower h a st (c # cs) = Some st'"
    using step run by simp
  from alt show ?case
  proof
    assume A: "(\<forall>c\<in>set cs. f c \<le> bestScore ?st1) \<and> st' = ?st1"
    show ?thesis
    proof (cases "f c > bestScore st")
      case True
      with A have "st' = \<lparr>bestMatch = Some ((c # cs) ! 0), bestScore = f ((c # cs) ! 0),
                         matchType = matchLabel (f ((c # cs) ! 0))\<rparr>"
        by simp
      moreover from True have "bestScore st < f ((c # cs) ! 0)" by simp
      moreover from A True have "\<forall>j<length (c # cs). f ((c # cs) ! j) \<le> f ((c # cs) ! 0)"
        by (auto simp: nth_Cons split: nat.splits)
      ultimately show ?thesis using res by (intro exI [of _ st']) (blast intro: exI [of _ 0])
    next
      case False
      with A res show ?thesis by auto
    qed
  next
    assume "\<exists>i<length cs. st' = \<lparr>bestMatch = Some (cs ! i), bestScore = f (cs ! i),
                                     matchType = matchLabel (f (cs ! i))\<rparr>
                \<and> bestScore ?st1 < f (cs ! i)
                \<and> (\<forall>j<length cs. f (cs ! j) \<le> f (cs ! i))
                \<and> (\<forall>j<i. f (cs ! j) < f (cs ! i))"
    then obtain i where i: "i < length cs"
      and st': "st' = \<lparr>bestMatch = Some (cs ! i), bestScore = f (cs ! i),
                                     matchType = matchLabel (f (cs ! i))\<rparr>"
      and gt: "bestScore ?st1 < f (cs ! i)"
      and mx: "\<forall>j<length cs. f (cs ! j) \<le> f (cs ! i)"
      and fst: "\<forall>j<i. f (cs ! j) < f (cs ! i)"
      by blast
    from gt have c_lt: "f c < f (cs ! i)" and st_lt: "bestScore st < f (cs ! i)"
      by (auto split: if_splits)
    have "Suc i < length (c # cs)" using i by simp
    moreover have "st' = \<lparr>bestMatch = Some ((c # cs) ! Suc i), bestScore = f ((c # cs) ! Suc i),
                         matchType = matchLabel (f ((c # cs) ! Suc i))\<rparr>"
      using st' by simp
    moreover have "bestScore st < f ((c # cs) ! Suc i)" using st_lt by simp
    moreover have "\<forall>j<length (c # cs). f ((c # cs) ! j) \<le> f ((c # cs) ! Suc i)"
      using mx c_lt by (auto simp: nth_Cons split: nat.splits)
    moreover have "\<forall>j<Suc i. f ((c # cs) ! j) < f ((c # cs) ! Suc i)"
      using fst c_lt by (auto simp: nth_Cons split: nat.splits)
    ultimately show ?thesis using res by blast
  qed
qed

lemma findBestMatch_initial:
  assumes "\<forall>c\<in>set cs. resourceScore lower (h a) (h c) = Some (f c)"
  shows "\<exists>st. findBestMatch lower h a initialMatch cs = Some st \<and>
           ((\<forall>c\<in>set cs. f c = 0) \<and> st = initialMatch
            \<or> (\<exists>i<length cs. st = \<lparr>bestMatch = Some (cs ! i), bestScore = f (cs ! i),
                                     matchType = matchLabel (f (cs ! i))\<rparr>
                  \<and> 0 < f (cs ! i)
                  \<and> (\<forall>j<length cs. f (cs ! j) \<le> f (cs ! i))
                  \<and> (\<forall>j<i. f (cs ! j) < f (cs ! i))))"
proof -
  have nonneg: "0 \<le> f c" if "c \<in> set cs" for c
    using assms that resourceScore_SomeD [of lower "h a" "h c" "f c"] score_nonneg by auto
  from findBestMatch_char [OF assms, of initialMatch] obtain st where
    run: "findBestMatch lower h a initialMatch cs = Some st" and
    alt: "(\<forall>c\<in>set cs. f c \<le> bestScore initialMatch) \<and> st = initialMatch
          \<or> (\<exists>i<length cs. st = \<lparr>bestMatch = Some (cs ! i), bestScore = f (cs ! i),
                                     matchType = matchLabel (f (cs ! i))\<rparr>
                \<and> bestScore initialMatch < f (cs ! i)
                \<and> (\<forall>j<length cs. f (cs ! j) \<le> f (cs ! i))
                \<and> (\<forall>j<i. f (cs ! j) < f (cs ! i)))"
    by blast
  have zero: "bestScore initialMatch = 0" by (simp add: initialMatch_def)
  from alt show ?thesis
  proof
    assume "(\<forall>c\<in>set cs. f c \<le> bestScore initialMatch) \<and> st = initialMatch"
    with nonneg zero have "(\<forall>c\<in>set cs. f c = 0) \<and> st = initialMatch"
      by (auto simp: order_antisym)
    with run show ?thesis by blast
  next
    assume "\<exists>i<length cs. st = \<lparr>bestMatch = Some (cs ! i), bestScore = f (cs ! i),
                                     matchType = matchLabel (f (cs ! i))\<rparr>
                \<and> bestScore initialMatch < f (cs ! i)
                \<and> (\<forall>j<length cs. f (cs ! j) \<le> f (cs ! i))
                \<and> (\<forall>j<i. f (cs ! j) < f (cs ! i))"
    with run zero show ?thesis by auto
  qed
qed

text \<open>The score function of a new resource against well-formed current resources.\<close>

lemma wellFormed_scores:
  assumes "wellFormed (h a)" "\<forall>c\<in>set cs. wellFormed (h c)"
  shows "\<forall>c\<in>set cs. resourceScore lower (h a) (h c)
           = Some (the (resourceScore lower (h a) (h c)))"
  using assms resourceScore_total [of "h a" _ lower] by fastforce

lemma findBestMatch_total:
  assumes "wellFormed (h a)" "\<forall>c\<in>set cs. wellFormed (h c)"
  shows "\<exists>st. findBestMatch lower h a initialMatch cs = Some st"
  using findBestMatch_initial [OF wellFormed_scores [OF assms]] by blast

section \<open>The outer loop\<close>

lemma updateResource_SomeD:
  assumes "updateResource lower cur hs a = Some hs'"
  shows "\<exists>st. findBestMatch lower (fst hs) a initialMatch cur = Some st \<and>
           hs' = (if accepted st
                  then ((fst hs)(a := (fst hs a)
                           \<lparr>weeks_on_list :=
                              plusOne (jsOr (weeks_on_list (fst hs (the (bestMatch st)))) (Num 1))\<rparr>),
                        if matchType st = Exact
                        then (snd hs)\<lparr>exactMatched := exactMatched (snd hs) + 1\<rparr>
                        else (snd hs)\<lparr>fuzzyMatched := fuzzyMatched (snd hs) + 1\<rparr>)
                  else ((fst hs)(a := (fst hs a)\<lparr>weeks_on_list := Num 1\<rparr>),
                        (snd hs)\<lparr>newCount := newCount (snd hs) + 1\<rparr>))"
  using assms by (auto simp: updateResource_def split: bind_splits)

lemma updateResource_total:
  assumes "wellFormed (fst hs a)" "\<forall>c\<in>set cur. wellFormed (fst hs c)"
  shows "\<exists>hs'. updateResource lower cur hs a = Some hs'"
  using findBestMatch_total [OF assms, of lower] by (auto simp: updateResource_def)

lemma updateResource_heap:
  assumes "updateResource lower cur hs a = Some hs'"
  shows "\<exists>w. fst hs' = (fst hs)(a := (fst hs a)\<lparr>weeks_on_list := w\<rparr>)"
  using updateResource_SomeD [OF assms] by (auto split: if_splits)

lemma updateResource_count:
  assumes "updateResource lower cur hs a = Some hs'"
  shows "exactMatched (snd hs') + fuzzyMatched (snd hs') + newCount (snd hs')
           = exactMatched (snd hs) + fuzzyMatched (snd hs) + newCount (snd hs) + 1"
  using updateResource_SomeD [OF assms] by (auto split: if_splits)

lemma updateResource_wellFormed:
  assumes "updateResource lower cur hs a = Some hs'"
  shows "wellFormed (fst hs' x) = wellFormed (fst hs x)"
proof -
  from updateResource_heap [OF assms] obtain w where
    "fst hs' = (fst hs)(a := (fst hs a)\<lparr>weeks_on_list := w\<rparr>)" by blast
  then show ?thesis by (cases "x = a") (simp_all add: wellFormed_def)
qed

lemma forEachNew_total:
  assumes "\<forall>x\<in>set new \<union> set cur. wellFormed (fst hs x)"
  shows "\<exists>hs'. forEachNew lower cur hs new = Some hs'"
  using assms
proof (induction new arbitrary: hs)
  case Nil
  then show ?case by simp
next
  case (Cons a new)
  from Cons.prems obtain hs1 where step: "updateResource lower cur hs a = Some hs1"
    using updateResource_total [of hs a cur lower] by auto
  from Cons.prems have "\<forall>x\<in>set new \<union> set cur. wellFormed (fst hs1 x)"
    by (simp add: updateResource_wellFormed [OF step])
  from Cons.IH [OF this] step show ?case by simp
qed

lemma forEachNew_count:
  assumes "forEachNew lower cur hs new = Some hs'"
  shows "exactMatched (snd hs') + fuzzyMatched (snd hs') + newCount (snd hs')
           = exactMatched (snd hs) + fuzzyMatched (snd hs) + newCount (snd hs) + length new"
  using assms
proof (induction new arbitrary: hs)
  case Nil
  then show ?case by simp
next
  case (Cons a new)
  from Cons.prems obtain hs1 where step: "updateResource lower cur hs a = Some hs1"
    and rest: "forEachNew lower cur hs1 new = Some hs'"
    by (auto split: bind_splits)
  from Cons.IH [OF rest] updateResource_count [OF step] show ?case by simp
qed

lemma forEachNew_frame:
  assumes "forEachNew lower cur hs new = Some hs'"
  shows "(\<forall>x. fst hs' x = (fst hs x)\<lparr>weeks_on_list := weeks_on_list (fst hs' x)\<rparr>)
           \<and> (\<forall>x. x \<notin> set new \<longrightarrow> fst hs' x = fst hs x)"
  using assms
proof (induction new arbitrary: hs)
  case Nil
  then show ?case by simp
next
  case (Cons a new)
  from Cons.prems obtain hs1 where step: "updateResource lower cur hs a = Some hs1"
    and rest: "forEachNew lower cur hs1 new = Some hs'"
    by (auto split: bind_splits)
  from updateResource_heap [OF step] obtain w where
    h1: "fst hs1 = (fst hs)(a := (fst hs a)\<lparr>weeks_on_list := w\<rparr>)" by blast
  from Cons.IH [OF rest] have
    ih1: "\<And>x. fst hs' x = (fst hs1 x)\<lparr>weeks_on_list := weeks_on_list (fst hs' x)\<rparr>" and
    ih2: "\<And>x. x \<notin> set new \<Longrightarrow> fst hs' x = fst hs1 x"
    by auto
  have "fst hs' x = (fst hs x)\<lparr>weeks_on_list := weeks_on_list (fst hs' x)\<rparr>" for x
    using ih1 [of x] h1 by (cases "x = a") auto
  moreover have "fst hs' x = fst hs x" if "x \<notin> set (a # new)" for x
    using ih2 [of x] that h1 by auto
  ultimately show ?case by blast
qed

lemma compareCurrent_score:
  "compareCurrent lower h a st c = Some st' \<Longrightarrow> resourceScore lower (h a) (h c) \<noteq> None"
  by (auto simp: compareCurrent_def split: bind_splits)

lemma findBestMatch_scores:
  assumes "findBestMatch lower h a st cs = Some st'"
  shows "\<forall>c\<in>set cs. resourceScore lower (h a) (h c)
           = Some (the (resourceScore lower (h a) (h c)))"
  using assms
proof (induction cs arbitrary: st)
  case Nil
  then show ?case by simp
next
  case (Cons c cs)
  from Cons.prems obtain st1 where step: "compareCurrent lower h a st c = Some st1"
    and rest: "findBestMatch lower h a st1 cs = Some st'"
    by (auto split: bind_splits)
  from compareCurrent_score [OF step] Cons.IH [OF rest] show ?case by auto
qed

text \<open>The label and the candidate kept by the inner loop.\<close>

lemma compareCurrent_label:
  assumes "compareCurrent lower h a st c = Some st'"
    and "matchType st = Exact \<longleftrightarrow> bestScore st \<ge> 2"
  shows "matchType st' = Exact \<longleftrightarrow> bestScore st' \<ge> 2"
  using assms by (auto simp: compareCurrent_def matchLabel_def split: bind_splits if_splits)

lemma findBestMatch_label:
  assumes "findBestMatch lower h a st cs = Some st'"
    and "matchType st = Exact \<longleftrightarrow> bestScore st \<ge> 2"
  shows "matchType st' = Exact \<longleftrightarrow> bestScore st' \<ge> 2"
  using assms
proof (induction cs arbitrary: st)
  case Nil
  then show ?case by simp
next
  case (Cons c cs)
  from Cons.prems(1) obtain st1 where step: "compareCurrent lower h a st c = Some st1"
    and rest: "findBestMatch lower h a st1 cs = Some st'"
    by (auto split: bind_splits)
  from Cons.IH [OF rest compareCurrent_label [OF step Cons.prems(2)]] show ?case .
qed

lemma compareCurrent_member:
  assumes "compareCurrent lower h a st c = Some st'"
  shows "bestMatch st' = bestMatch st \<or> bestMatch st' = Some c"
  using assms by (auto simp: compareCurrent_def split: bind_splits if_splits)

lemma findBestMatch_member:
  assumes "findBestMatch lower h a st cs = Some st'"
  shows "bestMatch st' = bestMatch st \<or> (\<exists>c\<in>set cs. bestMatch st' = Some c)"
  using assms
proof (induction cs arbitrary: st)
  case Nil
  then show ?case by simp
next
  case (Cons c cs)
  from Cons.prems obtain st1 where step: "compareCurrent lower h a st c = Some st1"
    and rest: "findBestMatch lower h a st1 cs = Some st'"
    by (auto split: bind_splits)
  from Cons.IH [OF rest] compareCurrent_member [OF step] show ?case by auto
qed

lemma initial_label: "matchType initialMatch = Exact \<longleftrightarrow> bestScore initialMatch \<ge> 2"
  by (simp add: initialMatch_def)

section \<open>Double precision\<close>

lemma roundHalfEven_int: "roundHalfEven (of_int k) = k"
  by (simp add: roundHalfEven_def)

lemma roundHalfEven_ge_floor: "\<lfloor>q\<rfloor> \<le> roundHalfEven q"
  by (simp add: roundHalfEven_def Let_def)

lemma binade_int:
  assumes "m \<noteq> 0"
  shows "binade (of_int m) = bitlen \<bar>m\<bar> - 1"
proof -
  have "\<bar>of_int m :: rat\<bar> = of_int \<bar>m\<bar>" by simp
  moreover have "1 \<le> (of_int \<bar>m\<bar> :: rat)" using assms by simp
  ultimately show ?thesis
    unfolding binade_def Let_def by (simp only: if_True floor_of_int)
qed

lemma bitlen_pos: "1 \<le> x \<Longrightarrow> 1 \<le> bitlen x"
  using bitlen_ge_iff_power [of 1 x] by simp

text \<open>The exponent of \<open>binade\<close> is the one of the binade.\<close>

lemma binade_bounds:
  assumes "x \<noteq> 0"
  shows "2 powi binade x \<le> \<bar>x\<bar> \<and> \<bar>x\<bar> < 2 powi (binade x + 1)"
proof (cases "\<bar>x\<bar> \<ge> 1")
  case True
  let ?m = "\<lfloor>\<bar>x\<bar>\<rfloor>"
  from True have m: "0 < ?m" by simp
  from bitlen_bounds [OF m] have
    lo: "2 ^ nat (bitlen ?m - 1) \<le> ?m" and hi: "?m < 2 ^ nat (bitlen ?m)" by simp_all
  from m have b: "1 \<le> bitlen ?m" by (intro bitlen_pos) simp
  have e: "binade x = bitlen ?m - 1" using True by (simp add: binade_def)
  have 1: "(2::rat) powi (bitlen ?m - 1) = of_int (2 ^ nat (bitlen ?m - 1))"
    using b by (simp add: power_int_def)
  have 2: "(2::rat) powi (bitlen ?m) = of_int (2 ^ nat (bitlen ?m))"
    using b by (simp add: power_int_def)
  from lo have "(of_int (2 ^ nat (bitlen ?m - 1)) :: rat) \<le> of_int ?m" by (rule of_int_le_iff [THEN iffD2])
  also have "\<dots> \<le> \<bar>x\<bar>" by simp
  finally have l: "2 powi binade x \<le> \<bar>x\<bar>" unfolding e 1 .
  from hi have "?m + 1 \<le> 2 ^ nat (bitlen ?m)" by simp
  then have "(of_int (?m + 1) :: rat) \<le> of_int (2 ^ nat (bitlen ?m))" by (rule of_int_le_iff [THEN iffD2])
  moreover have "\<bar>x\<bar> < of_int (?m + 1)" by linarith
  ultimately have "\<bar>x\<bar> < 2 powi (bitlen ?m)" unfolding 2 by simp
  then have "\<bar>x\<bar> < 2 powi (binade x + 1)" unfolding e by simp
  with l show ?thesis by simp
next
  case False
  let ?a = "\<bar>x\<bar>"
  let ?c = "\<lceil>1 / ?a\<rceil>"
  from assms False have a: "0 < ?a" "?a < 1" by simp_all
  then have inv: "1 < 1 / ?a" by simp
  then have c2: "2 \<le> ?c" by linarith
  then have m: "0 < ?c - 1" by simp
  let ?k = "bitlen (?c - 1)"
  from bitlen_bounds [OF m] have
    lo: "2 ^ nat (?k - 1) \<le> ?c - 1" and hi: "?c - 1 < 2 ^ nat ?k" by simp_all
  from m have k: "1 \<le> ?k" by (intro bitlen_pos) simp
  have e: "binade x = - ?k" using False by (simp add: binade_def)
  have c_hi: "1 / ?a \<le> of_int ?c" by simp
  have c_lo: "of_int (?c - 1) < 1 / ?a" by linarith
  from hi have "?c \<le> 2 ^ nat ?k" by simp
  then have "(of_int ?c :: rat) \<le> of_int (2 ^ nat ?k)" by (rule of_int_le_iff [THEN iffD2])
  also have "(of_int (2 ^ nat ?k) :: rat) = 2 ^ nat ?k" by simp
  finally have "of_int ?c \<le> (2::rat) ^ nat ?k" .
  with c_hi have "1 / ?a \<le> 2 ^ nat ?k" by (rule order_trans)
  with a have "1 \<le> 2 ^ nat ?k * ?a" by (simp add: field_simps)
  then have "1 / 2 ^ nat ?k \<le> ?a" by (simp add: field_simps)
  moreover have "(2::rat) powi (- ?k) = 1 / 2 ^ nat ?k"
    using k by (simp add: power_int_def field_simps)
  ultimately have l: "2 powi binade x \<le> ?a" unfolding e by simp
  have "(2::rat) ^ nat (?k - 1) = of_int (2 ^ nat (?k - 1))" by simp
  also from lo have "(of_int (2 ^ nat (?k - 1)) :: rat) \<le> of_int (?c - 1)"
    by (rule of_int_le_iff [THEN iffD2])
  finally have "(2::rat) ^ nat (?k - 1) \<le> of_int (?c - 1)" .
  from this c_lo have "2 ^ nat (?k - 1) < 1 / ?a" by (rule le_less_trans)
  with a have "2 ^ nat (?k - 1) * ?a < 1" by (simp add: field_simps)
  then have "?a < 1 / 2 ^ nat (?k - 1)" by (simp add: field_simps)
  moreover have "(2::rat) powi (- ?k + 1) = 1 / 2 ^ nat (?k - 1)"
  proof -
    have "- ?k + 1 = - int (nat (?k - 1))" using k by simp
    then show ?thesis by (simp only: power_int_minus power_int_of_nat) (simp add: field_simps)
  qed
  ultimately have "?a < 2 powi (binade x + 1)" unfolding e by simp
  with l show ?thesis by simp
qed

text \<open>Integers up to 2^53 in magnitude are doubles.\<close>

lemma toDouble_int:
  assumes "\<bar>m\<bar> \<le> 2 ^ 53"
  shows "toDouble (of_int m) = Num (of_int m)"
proof (cases "m = 0")
  case True
  then show ?thesis by (simp add: toDouble_def)
next
  case False
  let ?e = "bitlen \<bar>m\<bar> - 1"
  have pos: "1 \<le> \<bar>m\<bar>" using False by simp
  have e0: "0 \<le> ?e" using bitlen_pos [OF pos] by simp
  have "\<bar>m\<bar> < 2 ^ nat 54" using assms by simp
  then have e53: "?e \<le> 53"
    using bitlen_le_iff_power [of "\<bar>m\<bar>" 54] by simp
  let ?u = "(2 :: rat) powi (max ?e (- 1022) - 52)"
  have u: "?u = 2 powi (?e - 52)" using e0 by (simp add: max_def)
  have "\<exists>k. (of_int m :: rat) / ?u = of_int k"
  proof (cases "?e \<le> 52")
    case True
    then have "(2 :: rat) powi (?e - 52) = 1 / 2 ^ nat (52 - ?e)"
      by (simp add: power_int_def field_simps)
    then have "(of_int m :: rat) / ?u = of_int (m * 2 ^ nat (52 - ?e))"
      using u by simp
    then show ?thesis by blast
  next
    case False
    with e53 have e: "?e = 53" by simp
    then have "54 \<le> bitlen \<bar>m\<bar>" by simp
    then have "2 ^ 53 \<le> \<bar>m\<bar>"
      using bitlen_ge_iff_power [of 54 "\<bar>m\<bar>"] by simp
    with assms have "\<bar>m\<bar> = 9007199254740992" by simp
    then have "m = 9007199254740992 \<or> m = - 9007199254740992" by linarith
    then obtain j where j: "m = 2 * j"
    proof
      assume "m = 9007199254740992"
      then have "m = 2 * 4503599627370496" by simp
      then show thesis by (rule that)
    next
      assume "m = - 9007199254740992"
      then have "m = 2 * (- 4503599627370496)" by simp
      then show thesis by (rule that)
    qed
    have "?u = 2" using u e by simp
    with j have "(of_int m :: rat) / ?u = of_int j" by simp
    then show ?thesis by blast
  qed
  then obtain k where k: "(of_int m :: rat) / ?u = of_int k" by blast
  have upos: "0 < ?u" by simp
  from k upos have undo: "of_int k * ?u = (of_int m :: rat)"
    by (simp add: field_simps)
  have small: "\<bar>of_int m :: rat\<bar> < 2 powi 1024"
  proof -
    have "\<bar>of_int m :: rat\<bar> \<le> 2 ^ 53"
      using assms by (metis of_int_abs of_int_le_numeral_power_cancel_iff)
    also have "\<dots> < (2 :: rat) ^ 1024" by (simp add: power_strict_increasing)
    finally show ?thesis by (simp add: power_int_def)
  qed
  have bin: "binade (of_int m) = ?e" by (rule binade_int [OF False])
  have "toDouble (of_int m) =
          (let y = of_int (roundHalfEven (of_int m / ?u)) * ?u
           in if y \<ge> 2 powi 1024 then PosInfinity else if y \<le> - (2 powi 1024) then NegInfinity else Num y)"
    using False by (simp add: toDouble_def bin Let_def)
  also have "\<dots> = Num (of_int m)"
    using small unfolding k roundHalfEven_int undo Let_def by (simp add: abs_less_iff)
  finally show ?thesis .
qed

text \<open>Adding 1 to a positive number gives at least 1.\<close>

lemma toDouble_ge_1:
  assumes "1 \<le> y"
  shows "toDouble y = PosInfinity \<or> (\<exists>z. toDouble y = Num z \<and> 1 \<le> z)"
proof -
  let ?m = "\<lfloor>y\<rfloor>"
  let ?e = "bitlen ?m - 1"
  from assms have m1: "1 \<le> ?m" by simp
  have e0: "0 \<le> ?e" using bitlen_pos [OF m1] by simp
  have bin: "binade y = ?e" using assms by (simp add: binade_def)
  let ?u = "(2 :: rat) powi (?e - 52)"
  have upos: "0 < ?u" by simp
  have "2 ^ nat ?e \<le> ?m" using bitlen_bounds [of ?m] m1 by simp
  then have "(of_int (2 ^ nat ?e) :: rat) \<le> of_int ?m" by (simp only: of_int_le_iff)
  also have "\<dots> \<le> y" by simp
  finally have low: "(2 :: rat) ^ nat ?e \<le> y" by simp
  have pe: "(2 :: rat) powi ?e = 2 ^ nat ?e" using e0 by (simp add: power_int_def)
  have usplit: "?u * 2 ^ 52 = 2 powi ?e"
    using power_int_add [of "2 :: rat" "?e - 52" 52] by simp
  have "(2 :: rat) ^ 52 * ?u \<le> y" using low pe usplit by (simp add: mult.commute)
  then have q: "(2 :: rat) ^ 52 \<le> y / ?u" using upos by (simp add: pos_le_divide_eq)
  have "(2 :: int) ^ 52 \<le> \<lfloor>y / ?u\<rfloor>"
    using q by (simp add: le_floor_iff)
  from this roundHalfEven_ge_floor [of "y / ?u"]
  have r: "(2 :: int) ^ 52 \<le> roundHalfEven (y / ?u)"
    by (rule order_trans)
  let ?z = "of_int (roundHalfEven (y / ?u)) * ?u"
  from r have a: "(2 :: rat) ^ 52 \<le> of_int (roundHalfEven (y / ?u))"
    by (metis of_int_le_iff of_int_numeral of_int_power)
  have b: "(2 :: rat) ^ 52 * ?u \<le> ?z"
    by (rule mult_right_mono [OF a]) simp
  have c: "(2 :: rat) ^ 52 * ?u = 2 powi ?e"
    using usplit by (simp only: mult.commute)
  have d: "(1 :: rat) \<le> 2 powi ?e" unfolding pe by simp
  from b c d have z1: "1 \<le> ?z" by (simp only: order_trans)
  have y0: "y \<noteq> 0" using assms by simp
  have "toDouble y = (if ?z \<ge> 2 powi 1024 then PosInfinity
                      else if ?z \<le> - (2 powi 1024) then NegInfinity else Num ?z)"
    using y0 e0 by (simp add: toDouble_def bin Let_def max_def)
  moreover have "\<not> ?z \<le> - (2 powi 1024)"
  proof -
    have "(0 :: rat) < 2 powi 1024" by simp
    with z1 show ?thesis by linarith
  qed
  ultimately show ?thesis using z1 by auto
qed

text \<open>The first integer that is not a double.\<close>

lemma toDouble_2_53_plus_1: "toDouble (2 ^ 53 + 1) = Num (2 ^ 53)"
proof -
  let ?y = "(2 :: rat) ^ 53 + 1"
  have fl: "\<lfloor>?y\<rfloor> = 2 ^ 53 + 1"
  proof -
    have "?y = of_int (2 ^ 53 + 1)" by simp
    then show ?thesis by (simp only: floor_of_int)
  qed
  have "bitlen (2 ^ 53 + 1) = 53 + 1"
    using bitlen_twopow_add_eq [of 1 53] by simp
  then have bin: "binade ?y = 53"
    unfolding binade_def Let_def fl by simp
  have f: "\<lfloor>(9007199254740993 :: rat) / 2\<rfloor> = 4503599627370496"
    by (rule floor_unique) simp_all
  have r: "roundHalfEven (9007199254740993 / 2) = 4503599627370496"
    unfolding roundHalfEven_def Let_def f by simp
  have "?y \<noteq> 0" by simp
  then show ?thesis
    unfolding toDouble_def bin Let_def by (simp add: r power_int_def)
qed

lemma toDouble_succ:
  assumes "\<bar>n\<bar> < 2 ^ 53"
  shows "toDouble (of_int n + 1) = Num (of_int n + 1)"
proof -
  from assms have "\<bar>n + 1\<bar> \<le> 2 ^ 53" by simp
  from toDouble_int [OF this] show ?thesis by simp
qed

text \<open>For evaluating \<open>toDouble\<close> on integer literals.\<close>

lemma toDouble_small:
  assumes "of_int \<lfloor>x\<rfloor> = x" and "\<bar>x\<bar> \<le> 2 ^ 53"
  shows "toDouble x = Num x"
proof -
  from assms have "\<bar>\<lfloor>x\<rfloor>\<bar> \<le> 2 ^ 53"
    by (metis of_int_abs of_int_le_numeral_power_cancel_iff)
  from toDouble_int [OF this] show ?thesis unfolding assms(1) .
qed

lemma toDouble_big: "toDouble 9007199254740993 = Num 9007199254740992"
  using toDouble_2_53_plus_1 by simp

section \<open>The counter and the tallies of one new resource\<close>

lemma updateResource_eq:
  assumes "findBestMatch lower h a initialMatch cur = Some st"
  shows "updateResource lower cur (h, s) a =
           Some (if accepted st
                 then (h(a := (h a)\<lparr>weeks_on_list :=
                                 plusOne (jsOr (weeks_on_list (h (the (bestMatch st)))) (Num 1))\<rparr>),
                       if matchType st = Exact
                       then s\<lparr>exactMatched := exactMatched s + 1\<rparr>
                       else s\<lparr>fuzzyMatched := fuzzyMatched s + 1\<rparr>)
                 else (h(a := (h a)\<lparr>weeks_on_list := Num 1\<rparr>),
                       s\<lparr>newCount := newCount s + 1\<rparr>))"
  using assms by (simp add: updateResource_def)

lemma toDouble_2: "toDouble 2 = Num 2"
  using toDouble_int [of 2] by simp

lemma plusOne_one: "plusOne (Num 1) = Num 2"
  by (simp add: toDouble_2)

lemma plusOne_jsOr_falsy: "\<not> truthy w \<Longrightarrow> plusOne (jsOr w (Num 1)) = Num 2"
  by (simp add: jsOr_def toDouble_2)

lemma plusOne_jsOr_true: "plusOne (jsOr (Bool True) (Num 1)) = Num 2"
  by (simp add: jsOr_def)

lemma plusOne_jsOr_Num: "x \<noteq> 0 \<Longrightarrow> plusOne (jsOr (Num x) (Num 1)) = toDouble (x + 1)"
  by (simp add: jsOr_def)

lemma plusOne_jsOr_counter:
  assumes "usableCounter w"
  shows "atLeastOne (plusOne (jsOr w (Num 1)))"
proof (cases "truthy w")
  case False
  then show ?thesis by (simp add: plusOne_jsOr_falsy)
next
  case True
  show ?thesis
  proof (cases w)
    case (Num x)
    with True assms have "1 \<le> x + 1" by simp
    from toDouble_ge_1 [OF this] Num True show ?thesis by (auto simp: jsOr_def)
  qed (use True assms in \<open>auto simp: jsOr_def\<close>)
qed

lemma all_zero_is_new:
  assumes "\<forall>c\<in>set cur. resourceScore lower (h a) (h c) = Some 0"
  shows "updateResource lower cur (h, s) a =
           Some (h(a := (h a)\<lparr>weeks_on_list := Num 1\<rparr>), s\<lparr>newCount := newCount s + 1\<rparr>)"
proof -
  from findBestMatch_initial [where f = "\<lambda>c. 0", OF assms]
  have run: "findBestMatch lower h a initialMatch cur = Some initialMatch" by auto
  have "\<not> accepted initialMatch" by (simp add: accepted_def initialMatch_def)
  then show ?thesis by (simp add: updateResource_eq [OF run])
qed

lemma low_title_score:
  assumes "titleSimilarity lower t1 t2 = Some t" "t < 7 / 10"
    and "stringOrFalsy u1" "stringOrFalsy u2"
    and "title n = t1" "title c = t2" "source n = u1" "source c = u2"
  shows "resourceScore lower n c = Some 0"
proof -
  from assms obtain u where "urlSimilarity lower u1 u2 = Some u"
    using urlSimilarity_total by blast
  with assms show ?thesis by (simp add: resourceScore_def score_low_title)
qed

lemma atLeastOne_counter: "atLeastOne v \<Longrightarrow> usableCounter v"
  by (cases v) auto

lemma updateResource_weeks:
  assumes step: "updateResource lower cur hs a = Some hs'"
    and inv: "\<forall>c\<in>set cur. usableCounter (weeks_on_list (fst hs c))"
  shows "atLeastOne (weeks_on_list (fst hs' a)) \<and> (\<forall>x. x \<noteq> a \<longrightarrow> fst hs' x = fst hs x)"
proof -
  from updateResource_SomeD [OF step] obtain st where
    run: "findBestMatch lower (fst hs) a initialMatch cur = Some st" and
    res: "hs' = (if accepted st
                  then ((fst hs)(a := (fst hs a)
                           \<lparr>weeks_on_list :=
                              plusOne (jsOr (weeks_on_list (fst hs (the (bestMatch st)))) (Num 1))\<rparr>),
                        if matchType st = Exact
                        then (snd hs)\<lparr>exactMatched := exactMatched (snd hs) + 1\<rparr>
                        else (snd hs)\<lparr>fuzzyMatched := fuzzyMatched (snd hs) + 1\<rparr>)
                  else ((fst hs)(a := (fst hs a)\<lparr>weeks_on_list := Num 1\<rparr>),
                        (snd hs)\<lparr>newCount := newCount (snd hs) + 1\<rparr>))"
    by blast
  show ?thesis
  proof (cases "accepted st")
    case True
    then obtain b where b: "bestMatch st = Some b" by (auto simp: accepted_def)
    with findBestMatch_member [OF run] have "b \<in> set cur"
      by (auto simp: initialMatch_def)
    with inv have "usableCounter (weeks_on_list (fst hs b))" by simp
    from plusOne_jsOr_counter [OF this] True b res show ?thesis by simp
  next
    case False
    with res show ?thesis by simp
  qed
qed

lemma forEachNew_weeks:
  assumes "forEachNew lower cur hs new = Some hs'"
    and "\<forall>c\<in>set cur. usableCounter (weeks_on_list (fst hs c))"
  shows "\<forall>x. x \<in> set new \<or> atLeastOne (weeks_on_list (fst hs x))
            \<longrightarrow> atLeastOne (weeks_on_list (fst hs' x))"
  using assms
proof (induction new arbitrary: hs)
  case Nil
  then show ?case by simp
next
  case (Cons a new)
  from Cons.prems(1) obtain hs1 where step: "updateResource lower cur hs a = Some hs1"
    and rest: "forEachNew lower cur hs1 new = Some hs'"
    by (auto split: bind_splits)
  from updateResource_weeks [OF step Cons.prems(2)] have
    a1: "atLeastOne (weeks_on_list (fst hs1 a))" and
    same: "\<And>x. x \<noteq> a \<Longrightarrow> fst hs1 x = fst hs x"
    by auto
  have inv1: "\<forall>c\<in>set cur. usableCounter (weeks_on_list (fst hs1 c))"
  proof
    fix c assume "c \<in> set cur"
    with Cons.prems(2) a1 same [of c] show "usableCounter (weeks_on_list (fst hs1 c))"
      by (cases "c = a") (auto intro: atLeastOne_counter)
  qed
  from Cons.IH [OF rest inv1] have
    ih: "\<And>x. x \<in> set new \<or> atLeastOne (weeks_on_list (fst hs1 x))
            \<Longrightarrow> atLeastOne (weeks_on_list (fst hs' x))"
    by blast
  show ?case
  proof (intro allI impI)
    fix x assume x: "x \<in> set (a # new) \<or> atLeastOne (weeks_on_list (fst hs x))"
    show "atLeastOne (weeks_on_list (fst hs' x))"
    proof (cases "x = a")
      case True
      with a1 ih [of x] show ?thesis by simp
    next
      case False
      with x same [of x] ih [of x] show ?thesis by auto
    qed
  qed
qed

section \<open>New resources without a title\<close>



section \<open>Resubmitted resources\<close>














section \<open>Substrings and tokens\<close>

lemma startsWith_iff: "startsWith s p \<longleftrightarrow> (\<exists>q. s = p @ q)"
  by (induction s p rule: startsWith.induct) auto

lemma includesStr_iff: "includesStr s n \<longleftrightarrow> isSubstring n s"
proof (induction s)
  case Nil
  then show ?case by (auto simp: isSubstring_def)
next
  case (Cons c cs)
  show ?case
  proof
    assume "includesStr (c # cs) n"
    then consider "startsWith (c # cs) n" | "includesStr cs n" by auto
    then show "isSubstring n (c # cs)"
    proof cases
      case 1
      then obtain q where "c # cs = [] @ n @ q" by (auto simp: startsWith_iff)
      then show ?thesis unfolding isSubstring_def by blast
    next
      case 2
      with Cons.IH obtain p q where "cs = p @ n @ q" by (auto simp: isSubstring_def)
      then have "c # cs = (c # p) @ n @ q" by simp
      then show ?thesis unfolding isSubstring_def by blast
    qed
  next
    assume "isSubstring n (c # cs)"
    then obtain p q where pq: "c # cs = p @ n @ q" by (auto simp: isSubstring_def)
    show "includesStr (c # cs) n"
    proof (cases p)
      case Nil
      with pq have "startsWith (c # cs) n" by (auto simp: startsWith_iff)
      then show ?thesis by simp
    next
      case (Cons x p')
      with pq have "cs = p' @ n @ q" by simp
      then have "isSubstring n cs" unfolding isSubstring_def by blast
      with Cons.IH show ?thesis by simp
    qed
  qed
qed

lemma isWhiteSpace_space: "isWhiteSpace 32"
  by (simp add: isWhiteSpace_def)

lemma collapseWhiteSpace_chars:
  "c \<in> set (collapseWhiteSpace b xs) \<Longrightarrow> isWhiteSpace c \<Longrightarrow> c = 32"
  by (induction b xs rule: collapseWhiteSpace.induct) (auto split: if_splits)

lemma trim_subset: "set (trim xs) \<subseteq> set xs"
proof -
  have "set (trim xs) \<subseteq> set (rev (dropWhile isWhiteSpace xs))"
    unfolding trim_def using set_dropWhileD [of _ isWhiteSpace "rev (dropWhile isWhiteSpace xs)"]
    by auto
  also have "\<dots> \<subseteq> set xs"
    using set_dropWhileD [of _ isWhiteSpace xs] by auto
  finally show ?thesis .
qed

lemma normalizedTitle_whitespace:
  "c \<in> set (normalizedTitle lower s) \<Longrightarrow> isWhiteSpace c = (c = 32)"
  unfolding normalizedTitle_def
  using trim_subset collapseWhiteSpace_chars isWhiteSpace_space by blast

lemma splitOn_cong: "(\<And>c. c \<in> set s \<Longrightarrow> P c = Q c) \<Longrightarrow> splitOn P s = splitOn Q s"
  by (induction s) auto

lemma significantWords_tokenSet:
  "significantWords (normalizedTitle lower s) = tokenSet (normalizedTitle lower s)"
proof -
  have "splitOn (\<lambda>c. c = 32) (normalizedTitle lower s)
          = splitOn isWhiteSpace (normalizedTitle lower s)"
    by (rule splitOn_cong) (simp add: normalizedTitle_whitespace)
  then show ?thesis by (auto simp: significantWords_def tokenSet_def)
qed

lemma finite_tokenSet: "finite (tokenSet s)"
  by (simp add: tokenSet_def)

section \<open>Evaluation on concrete inputs\<close>

lemmas string_eval = js_def asciiLower_def trim_def isWhiteSpace_def replaceSeparators_def
  isSeparator_def normalizedTitle_def normalizeTitle_def normalizeUrl_def stripProtocol_def
  stripWww_def stripTrailingSlashes_def stripFinalSlash_def

lemma card_inter_lists:
  "card {w \<in> set xs. w \<in> set ys} = length (remdups (filter (\<lambda>w. w \<in> set ys) xs))"
proof -
  have eq: "{w \<in> set xs. w \<in> set ys} = set (filter (\<lambda>w. w \<in> set ys) xs)" by auto
  show ?thesis unfolding eq by (rule card_set)
qed

lemma card_union_lists: "card (set xs \<union> set ys) = length (remdups (xs @ ys))"
  by (simp add: card_set [symmetric])

lemma book_fields:
  "title (book t s w) = Str (js t)" "source (book t s w) = Str (js s)"
  "type (book t s w) = Str (js ''book'')" "weeks_on_list (book t s w) = w"
  by (simp_all add: book_def)

lemmas run_eval = outcome_def mergeAndUpdateResources_def currentResourcesArray_def
  updateResource_def compareCurrent_def initialMatch_def accepted_def matchLabel_def jsOr_def
  heapOf_def book_fields noStats_def toDouble_small toDouble_big

lemma score_same:
  "resourceScore asciiLower (book ''ab c'' ''x.y/z'' w) (book ''ab c'' ''x.y/z'' w') = Some 2"
  by (simp add: resourceScore_def book_fields titleSimilarity_def urlSimilarity_def score_def
      string_eval)

lemma score_variant_1:
  "resourceScore asciiLower (book ''ab - c'' ''https://www.x.y/z/'' w)
     (book ''Ab: c'' ''http://x.y/z'' w') = Some 2"
  by (simp add: resourceScore_def book_fields titleSimilarity_def urlSimilarity_def score_def
      string_eval)

lemma score_variant_0:
  "resourceScore asciiLower (book ''ab - c'' ''https://www.x.y/z/'' w)
     (book ''ab c'' ''x.y/z'' w') = Some 2"
  by (simp add: resourceScore_def book_fields titleSimilarity_def urlSimilarity_def score_def
      string_eval)

lemma title_weak:
  "titleSimilarity asciiLower (Str (js ''abc ghi def'')) (Str (js ''abc def'')) = Some (7 / 10)"
  unfolding titleSimilarity_def significantWords_def Let_def
    card_inter_lists card_union_lists card_set
  by (simp add: string_eval)

lemma url_same:
  "urlSimilarity asciiLower (Str (js ''x.y/z'')) (Str (js ''x.y/z'')) = Some 1"
  by (simp add: urlSimilarity_def string_eval)

lemma score_weak:
  "resourceScore asciiLower (book ''abc ghi def'' ''x.y/z'' w) (book ''abc def'' ''x.y/z'' w')
     = Some (12 / 10)"
  by (simp add: resourceScore_def book_fields title_weak url_same score_def)

lemma title_unrelated:
  "titleSimilarity asciiLower (Str (js ''qqq'')) (Str (js ''ab c'')) = Some 0"
  unfolding titleSimilarity_def significantWords_def Let_def
    card_inter_lists card_union_lists card_set
  by (simp add: string_eval)

lemma variants_best:
  "findBestMatch asciiLower variantsHeap 2 initialMatch [0, 1]
     = Some \<lparr>bestMatch = Some 0, bestScore = 2, matchType = Exact\<rparr>"
  by (simp add: variantsHeap_def run_eval score_variant_0 score_variant_1)

lemma weak_best:
  "findBestMatch asciiLower weakHeap 1 initialMatch [0]
     = Some \<lparr>bestMatch = Some 0, bestScore = 12 / 10, matchType = Weak\<rparr>"
  by (simp add: weakHeap_def run_eval score_weak)

lemma variants_wellFormed:
  "wellFormed (variantsHeap 0)" "wellFormed (variantsHeap 1)" "wellFormed (variantsHeap 2)"
  by (simp_all add: variantsHeap_def heapOf_def wellFormed_def book_fields)

lemma variants_run:
  "outcome [2] (mergeAndUpdateResources asciiLower variantsHeap (Some [0, 1]) (Some [2]))
     = Some ([Num 4], \<lparr>exactMatched = 1, fuzzyMatched = 0, newCount = 0\<rparr>)"
  by (simp add: variantsHeap_def run_eval score_variant_0 score_variant_1)

lemma merge_Some:
  "mergeAndUpdateResources lower h (Some cur) (Some new)
     = forEachNew lower cur (h, \<lparr>exactMatched = 0, fuzzyMatched = 0, newCount = 0\<rparr>) new"
  by (simp add: mergeAndUpdateResources_def currentResourcesArray_def)

lemma merge_total:
  assumes "\<forall>x\<in>set new \<union> set cur. wellFormed (h x)"
  shows "\<exists>h' s. mergeAndUpdateResources lower h (Some cur) (Some new) = Some (h', s)"
proof -
  let ?zero = "\<lparr>exactMatched = 0, fuzzyMatched = 0, newCount = 0\<rparr>"
  from assms obtain hs' where "forEachNew lower cur (h, ?zero) new = Some hs'"
    using forEachNew_total [of new cur "(h, ?zero)" lower] by auto
  then show ?thesis by (cases hs') (simp add: merge_Some)
qed

section \<open>The claims\<close>

subsection \<open>C1: the decision table, the best candidate and its acceptance\<close>

text \<open>
  C1. Whenever the inner loop, run for a new resource at \<open>a\<close> over the current resources
  \<open>cur\<close>, returns a state \<open>st\<close>: the score of the new resource against every current
  resource is the score that the first satisfied row of the decision table gives for the
  two similarities of the pair (0 when no row is satisfied); when no candidate is kept,
  every score is 0; a kept candidate is a current resource \<open>cur ! i\<close> whose score is the
  best score, no current resource scores higher, and every current resource before it
  scores strictly lower (of several resources with the highest score the first is kept);
  and the match is accepted, that is the body of the outer loop does not count the
  resource as new, exactly when the best score is at least 1.2. The inner loop returns
  such a state when all titles and sources are strings or falsy.
\<close>

theorem C1_matcher_decision_table:
  "(\<forall>st. findBestMatch lower h a initialMatch cur = Some st \<longrightarrow>
       (\<forall>c\<in>set cur. \<exists>t u.
           titleSimilarity lower (title (h a)) (title (h c)) = Some t
           \<and> urlSimilarity lower (source (h a)) (source (h c)) = Some u
           \<and> resourceScore lower (h a) (h c) = Some (firstSatisfied decisionTable t u))
       \<and> (bestMatch st = None \<longrightarrow>
             bestScore st = 0 \<and> (\<forall>c\<in>set cur. resourceScore lower (h a) (h c) = Some 0))
       \<and> (\<forall>b. bestMatch st = Some b \<longrightarrow>
             (\<exists>i<length cur. b = cur ! i
                \<and> resourceScore lower (h a) (h b) = Some (bestScore st)
                \<and> (\<forall>j<length cur. \<exists>sc. resourceScore lower (h a) (h (cur ! j)) = Some sc
                                      \<and> sc \<le> bestScore st)
                \<and> (\<forall>j<i. \<exists>sc. resourceScore lower (h a) (h (cur ! j)) = Some sc
                                      \<and> sc < bestScore st)))
       \<and> (accepted st \<longleftrightarrow> bestScore st \<ge> 12 / 10)
       \<and> (\<exists>hs'. updateResource lower cur (h, s) a = Some hs'
              \<and> (newCount (snd hs') = newCount s \<longleftrightarrow> bestScore st \<ge> 12 / 10)))
   \<and> (wellFormed (h a) \<and> (\<forall>c\<in>set cur. wellFormed (h c))
        \<longrightarrow> (\<exists>st. findBestMatch lower h a initialMatch cur = Some st))"
  (is "?A \<and> ?B")
proof -
  let ?f = "\<lambda>c. the (resourceScore lower (h a) (h c))"
  have main:
    "(\<forall>c\<in>set cur. \<exists>t u.
           titleSimilarity lower (title (h a)) (title (h c)) = Some t
           \<and> urlSimilarity lower (source (h a)) (source (h c)) = Some u
           \<and> resourceScore lower (h a) (h c) = Some (firstSatisfied decisionTable t u))
       \<and> (bestMatch st = None \<longrightarrow>
             bestScore st = 0 \<and> (\<forall>c\<in>set cur. resourceScore lower (h a) (h c) = Some 0))
       \<and> (\<forall>b. bestMatch st = Some b \<longrightarrow>
             (\<exists>i<length cur. b = cur ! i
                \<and> resourceScore lower (h a) (h b) = Some (bestScore st)
                \<and> (\<forall>j<length cur. \<exists>sc. resourceScore lower (h a) (h (cur ! j)) = Some sc
                                      \<and> sc \<le> bestScore st)
                \<and> (\<forall>j<i. \<exists>sc. resourceScore lower (h a) (h (cur ! j)) = Some sc
                                      \<and> sc < bestScore st)))
       \<and> (accepted st \<longleftrightarrow> bestScore st \<ge> 12 / 10)
       \<and> (\<exists>hs'. updateResource lower cur (h, s) a = Some hs'
              \<and> (newCount (snd hs') = newCount s \<longleftrightarrow> bestScore st \<ge> 12 / 10))"
    if run: "findBestMatch lower h a initialMatch cur = Some st" for st
  proof -
    have sc: "\<forall>c\<in>set cur. resourceScore lower (h a) (h c) = Some (?f c)"
      using findBestMatch_scores [OF run] by simp
    have table: "\<forall>c\<in>set cur. \<exists>t u.
                 titleSimilarity lower (title (h a)) (title (h c)) = Some t
                 \<and> urlSimilarity lower (source (h a)) (source (h c)) = Some u
                 \<and> resourceScore lower (h a) (h c) = Some (firstSatisfied decisionTable t u)"
    proof
      fix c assume "c \<in> set cur"
      with sc have "resourceScore lower (h a) (h c) = Some (?f c)" by simp
      from resourceScore_SomeD [OF this]
      show "\<exists>t u. titleSimilarity lower (title (h a)) (title (h c)) = Some t
                 \<and> urlSimilarity lower (source (h a)) (source (h c)) = Some u
                 \<and> resourceScore lower (h a) (h c) = Some (firstSatisfied decisionTable t u)"
        by (auto simp: resourceScore_def score_table)
    qed
    from findBestMatch_initial [OF sc] run have
      alt: "(\<forall>c\<in>set cur. ?f c = 0) \<and> st = initialMatch
            \<or> (\<exists>i<length cur. st = \<lparr>bestMatch = Some (cur ! i), bestScore = ?f (cur ! i),
                                       matchType = matchLabel (?f (cur ! i))\<rparr>
                  \<and> 0 < ?f (cur ! i)
                  \<and> (\<forall>j<length cur. ?f (cur ! j) \<le> ?f (cur ! i))
                  \<and> (\<forall>j<i. ?f (cur ! j) < ?f (cur ! i)))"
      by simp
    let ?hs' = "if accepted st
                   then (h(a := (h a)\<lparr>weeks_on_list :=
                                   plusOne (jsOr (weeks_on_list (h (the (bestMatch st)))) (Num 1))\<rparr>),
                         if matchType st = Exact
                         then s\<lparr>exactMatched := exactMatched s + 1\<rparr>
                         else s\<lparr>fuzzyMatched := fuzzyMatched s + 1\<rparr>)
                   else (h(a := (h a)\<lparr>weeks_on_list := Num 1\<rparr>),
                         s\<lparr>newCount := newCount s + 1\<rparr>)"
    have upd: "updateResource lower cur (h, s) a = Some ?hs'"
      by (rule updateResource_eq [OF run])
    have cnt: "newCount (snd ?hs') = newCount s \<longleftrightarrow> accepted st"
      by simp
    from alt have rest:
      "(bestMatch st = None \<longrightarrow>
           bestScore st = 0 \<and> (\<forall>c\<in>set cur. resourceScore lower (h a) (h c) = Some 0))
       \<and> (\<forall>b. bestMatch st = Some b \<longrightarrow>
             (\<exists>i<length cur. b = cur ! i
                \<and> resourceScore lower (h a) (h b) = Some (bestScore st)
                \<and> (\<forall>j<length cur. \<exists>sc. resourceScore lower (h a) (h (cur ! j)) = Some sc
                                      \<and> sc \<le> bestScore st)
                \<and> (\<forall>j<i. \<exists>sc. resourceScore lower (h a) (h (cur ! j)) = Some sc
                                      \<and> sc < bestScore st)))
       \<and> (accepted st \<longleftrightarrow> bestScore st \<ge> 12 / 10)"
    proof
      assume A: "(\<forall>c\<in>set cur. ?f c = 0) \<and> st = initialMatch"
      then have "\<forall>c\<in>set cur. resourceScore lower (h a) (h c) = Some 0"
        using sc by simp
      with A show ?thesis by (simp add: initialMatch_def accepted_def)
    next
      assume "\<exists>i<length cur. st = \<lparr>bestMatch = Some (cur ! i), bestScore = ?f (cur ! i),
                                       matchType = matchLabel (?f (cur ! i))\<rparr>
                  \<and> 0 < ?f (cur ! i)
                  \<and> (\<forall>j<length cur. ?f (cur ! j) \<le> ?f (cur ! i))
                  \<and> (\<forall>j<i. ?f (cur ! j) < ?f (cur ! i))"
      then obtain i where i: "i < length cur"
        and st: "st = \<lparr>bestMatch = Some (cur ! i), bestScore = ?f (cur ! i),
                                       matchType = matchLabel (?f (cur ! i))\<rparr>"
        and pos: "0 < ?f (cur ! i)"
        and mx: "\<forall>j<length cur. ?f (cur ! j) \<le> ?f (cur ! i)"
        and fst: "\<forall>j<i. ?f (cur ! j) < ?f (cur ! i)"
        by (elim exE conjE)
      have scj: "resourceScore lower (h a) (h (cur ! j)) = Some (?f (cur ! j))"
        if "j < length cur" for j
        using sc that by simp
      from scj [OF i] obtain t u where "?f (cur ! i) = score t u"
        using resourceScore_SomeD by blast
      with pos have ge: "12 / 10 \<le> ?f (cur ! i)" using score_pos_ge by simp
      have 1: "resourceScore lower (h a) (h (cur ! i)) = Some (bestScore st)"
        using scj [OF i] st by simp
      have 2: "\<forall>j<length cur. \<exists>sc. resourceScore lower (h a) (h (cur ! j)) = Some sc
                                      \<and> sc \<le> bestScore st"
      proof (intro allI impI)
        fix j assume j: "j < length cur"
        with mx st have "?f (cur ! j) \<le> bestScore st" by simp
        with scj [OF j] show "\<exists>sc. resourceScore lower (h a) (h (cur ! j)) = Some sc
                                      \<and> sc \<le> bestScore st" by blast
      qed
      have 3: "\<forall>j<i. \<exists>sc. resourceScore lower (h a) (h (cur ! j)) = Some sc \<and> sc < bestScore st"
      proof (intro allI impI)
        fix j assume j: "j < i"
        with fst st have lt: "?f (cur ! j) < bestScore st" by simp
        from j i have "j < length cur" by simp
        from scj [OF this] lt
        show "\<exists>sc. resourceScore lower (h a) (h (cur ! j)) = Some sc \<and> sc < bestScore st"
          by blast
      qed
      have 4: "accepted st \<longleftrightarrow> bestScore st \<ge> 12 / 10"
        using st ge by (simp add: accepted_def)
      have 5: "bestMatch st = Some (cur ! i)" using st by simp
      from i 1 2 3 4 5 show ?thesis by auto
    qed
    from rest cnt have last: "newCount (snd ?hs') = newCount s \<longleftrightarrow> bestScore st \<ge> 12 / 10"
      by blast
    from upd last have "\<exists>hs'. updateResource lower cur (h, s) a = Some hs'
              \<and> (newCount (snd hs') = newCount s \<longleftrightarrow> bestScore st \<ge> 12 / 10)"
      by (intro exI [of _ ?hs']) (rule conjI)
    with table rest show ?thesis by (intro conjI) blast+
  qed
  have total: "\<exists>st. findBestMatch lower h a initialMatch cur = Some st"
    if "wellFormed (h a) \<and> (\<forall>c\<in>set cur. wellFormed (h c))"
    using that findBestMatch_total [of h a cur lower] by blast
  show ?thesis
  proof (rule conjI)
    show "?A" by (intro allI impI) (rule main)
    show "?B" by (intro impI) (rule total)
  qed
qed

text \<open>
  At the new resource of \<open>variantsHeap\<close>, which scores 2 against both current resources,
  the inner loop returns, and the theorem leaves only the first of them as the candidate.
\<close>

theorem C1_matcher_decision_table_witness:
  "wellFormed (variantsHeap 2) \<and> wellFormed (variantsHeap 0) \<and> wellFormed (variantsHeap 1)
   \<and> (\<exists>st. findBestMatch asciiLower variantsHeap 2 initialMatch [0, 1] = Some st
          \<and> bestMatch st = Some 0 \<and> bestScore st = 2 \<and> accepted st)"
proof -
  let ?sc = "\<lambda>c. resourceScore asciiLower (variantsHeap 2) (variantsHeap c)"
  have wf: "wellFormed (variantsHeap 2) \<and> (\<forall>c\<in>set [0, 1]. wellFormed (variantsHeap c))"
    using variants_wellFormed by simp
  have s0: "?sc 0 = Some 2" and s1: "?sc 1 = Some 2"
    by (simp_all add: variantsHeap_def heapOf_def score_variant_0 score_variant_1)
  note inst = C1_matcher_decision_table [of asciiLower variantsHeap 2 "[0, 1]" noStats]
  from inst [THEN conjunct2, THEN mp, OF wf] obtain st where
    run: "findBestMatch asciiLower variantsHeap 2 initialMatch [0, 1] = Some st"
    by (elim exE)
  from inst [THEN conjunct1, THEN spec, THEN mp, OF run]
  have "bestMatch st = Some 0 \<and> bestScore st = 2 \<and> accepted st"
  proof (elim conjE)
    assume none: "bestMatch st = None \<longrightarrow> bestScore st = 0 \<and> (\<forall>c\<in>set [0, 1]. ?sc c = Some 0)"
      and some: "\<forall>b. bestMatch st = Some b \<longrightarrow>
                 (\<exists>i<length [0, 1 :: nat]. b = [0, 1] ! i
                    \<and> ?sc b = Some (bestScore st)
                    \<and> (\<forall>j<length [0, 1 :: nat]. \<exists>sc. ?sc ([0, 1] ! j) = Some sc
                          \<and> sc \<le> bestScore st)
                    \<and> (\<forall>j<i. \<exists>sc. ?sc ([0, 1] ! j) = Some sc \<and> sc < bestScore st))"
      and acc: "accepted st \<longleftrightarrow> bestScore st \<ge> 12 / 10"
    have "bestMatch st \<noteq> None"
    proof
      assume "bestMatch st = None"
      with none have "?sc 0 = Some 0" by simp
      with s0 show False by simp
    qed
    then obtain b where b: "bestMatch st = Some b" by blast
    from some [THEN spec, THEN mp, OF b]
    obtain i where i: "i < length [0, 1 :: nat]" and bi: "b = [0, 1] ! i"
      and best: "?sc b = Some (bestScore st)"
      and first: "\<forall>j<i. \<exists>sc. ?sc ([0, 1] ! j) = Some sc \<and> sc < bestScore st"
      by (elim exE conjE)
    have "i = 0"
    proof (rule ccontr)
      assume "i \<noteq> 0"
      with i have i1: "i = 1" by simp
      with bi have "b = 1" by simp
      with best s1 have two: "bestScore st = 2" by simp
      from first i1 have "\<exists>sc. ?sc ([0, 1] ! 0) = Some sc \<and> sc < bestScore st" by simp
      with s0 have "2 < bestScore st" by simp
      with two show False by simp
    qed
    with bi have "b = 0" by simp
    with best s0 b have "bestMatch st = Some 0" "bestScore st = 2" by simp_all
    with acc show ?thesis by simp
  qed
  with run show ?thesis using variants_wellFormed by blast
qed

subsection \<open>C2: the cascade of the title similarity\<close>

text \<open>
  C2. For all strings \<open>a\<close> and \<open>b\<close>, \<open>titleSimilarity\<close> returns, without an exception, the
  value of the cascade of the specification: 0 when one of the strings is empty; else 1
  when the normalized forms are equal; else 0.9 when one normalized form occurs in the
  other; else, with the tokens of each normalized form cut at white space and longer than
  two code units, 0 when one of the two token sets is empty, and otherwise 0.8 when the
  Jaccard overlap of the sets exceeds 0.7, 0.7 when it exceeds 0.5, and 0 when it does not.
\<close>

theorem C2_titleSimilarity_cascade:
  "titleSimilarity lower (Str a) (Str b) = Some (titleSimilaritySpec lower a b)"
proof -
  let ?na = "normalizedTitle lower a" and ?nb = "normalizedTitle lower b"
  have inter: "{w \<in> tokenSet ?na. w \<in> tokenSet ?nb} = tokenSet ?na \<inter> tokenSet ?nb"
    by auto
  have empty: "card (tokenSet s) = 0 \<longleftrightarrow> tokenSet s = {}" for s
    by (simp add: finite_tokenSet)
  show ?thesis
    by (simp add: titleSimilarity_def titleSimilaritySpec_def normalizeTitle_def Let_def
        includesStr_iff significantWords_tokenSet inter empty jaccard_def del: card_eq_0_iff)
qed

text \<open>
  Two titles with the token sets \<open>{abc, ghi, def}\<close> and \<open>{abc, def}\<close>: the script computes
  0.7, and so this is the value of the cascade (overlap 2/3).
\<close>

theorem C2_titleSimilarity_cascade_witness:
  "titleSimilaritySpec asciiLower (js ''abc ghi def'') (js ''abc def'') = 7 / 10"
  using C2_titleSimilarity_cascade [of asciiLower "js ''abc ghi def''" "js ''abc def''"] title_weak
  by simp

subsection \<open>C3: a new resource without a title or without a source\<close>




subsection \<open>C4: the counter of a matched resource\<close>

text \<open>
  C4, amended. For every accepted match with the current resource \<open>b\<close>: when the
  \<open>weeks_on_list\<close> of \<open>b\<close> is absent, null, a boolean, NaN, the empty string or the number 0
  (any falsy value, or \<open>true\<close>), the new resource's \<open>weeks_on_list\<close> is set to 2; when it is a
  finite number other than 0, the new resource's \<open>weeks_on_list\<close> is the double nearest to
  that number plus 1, which for an integer other than 0 and below \<open>2^53\<close> in magnitude is
  exactly that integer plus 1.
\<close>

theorem C4_weeks_increment:
  assumes run: "findBestMatch lower h a initialMatch cur = Some st" and acc: "accepted st"
    and b: "bestMatch st = Some b"
  shows "\<exists>h' s'. updateResource lower cur (h, s) a = Some (h', s')
           \<and> (\<not> truthy (weeks_on_list (h b)) \<or> weeks_on_list (h b) = Bool True
                \<longrightarrow> weeks_on_list (h' a) = Num 2)
           \<and> (\<forall>x. weeks_on_list (h b) = Num x \<and> x \<noteq> 0
                \<longrightarrow> weeks_on_list (h' a) = toDouble (x + 1))
           \<and> (\<forall>n. weeks_on_list (h b) = Num (of_int n) \<and> n \<noteq> 0 \<and> \<bar>n\<bar> < 2 ^ 53
                \<longrightarrow> weeks_on_list (h' a) = Num (of_int (n + 1)))"
proof -
  let ?w = "plusOne (jsOr (weeks_on_list (h b)) (Num 1))"
  let ?h' = "h(a := (h a)\<lparr>weeks_on_list := ?w\<rparr>)"
  have step: "\<exists>s'. updateResource lower cur (h, s) a = Some (?h', s')"
    using acc b by (simp add: updateResource_eq [OF run])
  have 1: "?w = Num 2" if "\<not> truthy (weeks_on_list (h b)) \<or> weeks_on_list (h b) = Bool True"
    using that plusOne_jsOr_falsy [of "weeks_on_list (h b)"] plusOne_jsOr_true by auto
  have 2: "?w = toDouble (x + 1)" if "weeks_on_list (h b) = Num x" "x \<noteq> 0" for x
    using that by (simp add: plusOne_jsOr_Num)
  have 3: "?w = Num (of_int (n + 1))"
    if "weeks_on_list (h b) = Num (of_int n)" "n \<noteq> 0" "\<bar>n\<bar> < 2 ^ 53" for n
    using that toDouble_succ [of n] by (simp add: plusOne_jsOr_Num)
  from step obtain s' where "updateResource lower cur (h, s) a = Some (?h', s')" by blast
  moreover have "weeks_on_list (?h' a) = ?w" by simp
  ultimately show ?thesis using 1 2 3 by (intro exI [of _ ?h'] exI [of _ s']) simp
qed

text \<open>
  In \<open>variantsHeap\<close> the accepted match is the current resource at 0 with counter 3; the new
  resource gets 4.
\<close>

theorem C4_weeks_increment_witness:
  "findBestMatch asciiLower variantsHeap 2 initialMatch [0, 1]
     = Some \<lparr>bestMatch = Some 0, bestScore = 2, matchType = Exact\<rparr>
   \<and> accepted \<lparr>bestMatch = Some 0, bestScore = 2, matchType = Exact\<rparr>
   \<and> weeks_on_list (variantsHeap 0) = Num 3
   \<and> (\<exists>h' s'. updateResource asciiLower [0, 1] (variantsHeap, noStats) 2 = Some (h', s')
          \<and> weeks_on_list (h' 2) = Num 4 \<and> toDouble 4 = Num 4)"
proof -
  let ?st = "\<lparr>bestMatch = Some 0, bestScore = 2, matchType = Exact\<rparr>"
  have acc: "accepted ?st" by (simp add: accepted_def)
  have b: "bestMatch ?st = Some 0" by simp
  have w: "weeks_on_list (variantsHeap 0) = Num 3"
    by (simp add: variantsHeap_def heapOf_def book_fields)
  from C4_weeks_increment [OF variants_best acc b, of noStats]
  have "\<exists>h' s'. updateResource asciiLower [0, 1] (variantsHeap, noStats) 2 = Some (h', s')
          \<and> weeks_on_list (h' 2) = Num 4 \<and> toDouble 4 = Num 4"
  proof (elim exE conjE)
    fix h' s'
    assume u: "updateResource asciiLower [0, 1] (variantsHeap, noStats) 2 = Some (h', s')"
      and d: "\<forall>x. weeks_on_list (variantsHeap 0) = Num x \<and> x \<noteq> 0
                \<longrightarrow> weeks_on_list (h' 2) = toDouble (x + 1)"
      and n: "\<forall>n. weeks_on_list (variantsHeap 0) = Num (of_int n) \<and> n \<noteq> 0 \<and> \<bar>n\<bar> < 2 ^ 53
                \<longrightarrow> weeks_on_list (h' 2) = Num (of_int (n + 1))"
    from n [THEN spec, of 3] w have 4: "weeks_on_list (h' 2) = Num 4" by simp
    from d [THEN spec, of 3] w have "weeks_on_list (h' 2) = toDouble 4" by simp
    with 4 have "toDouble 4 = Num 4" by simp
    with u 4 show ?thesis by blast
  qed
  with variants_best acc w show ?thesis by simp
qed

text \<open>
  The claim as stated fails in four ways. A current resource with the numeric counter 0
  gives the matched new resource the counter 2, not 0 + 1. One with the non-numeric
  counter \<open>"3"\<close> (a string) is not treated as 1: the new resource gets the string \<open>"31"\<close>.
  One whose counter is the empty array is not treated as 1 either: the new resource gets
  the string \<open>"1"\<close>. And one with the counter \<open>2^53\<close> gives the new resource \<open>2^53\<close> again,
  since \<open>2^53 + 1\<close> is not a double.
\<close>

theorem C4_weeks_increment_counterexample:
  "outcome [1] (mergeAndUpdateResources asciiLower
      (heapOf [book ''ab c'' ''x.y/z'' (Num 0), book ''ab c'' ''x.y/z'' Undefined])
      (Some [0]) (Some [1]))
     = Some ([Num 2], \<lparr>exactMatched = 1, fuzzyMatched = 0, newCount = 0\<rparr>)
   \<and> outcome [1] (mergeAndUpdateResources asciiLower
      (heapOf [book ''ab c'' ''x.y/z'' (Str (js ''3'')), book ''ab c'' ''x.y/z'' Undefined])
      (Some [0]) (Some [1]))
     = Some ([Str (js ''31'')], \<lparr>exactMatched = 1, fuzzyMatched = 0, newCount = 0\<rparr>)
   \<and> outcome [1] (mergeAndUpdateResources asciiLower
      (heapOf [book ''ab c'' ''x.y/z'' (Object []), book ''ab c'' ''x.y/z'' Undefined])
      (Some [0]) (Some [1]))
     = Some ([Str (js ''1'')], \<lparr>exactMatched = 1, fuzzyMatched = 0, newCount = 0\<rparr>)
   \<and> outcome [1] (mergeAndUpdateResources asciiLower
      (heapOf [book ''ab c'' ''x.y/z'' (Num 9007199254740992),
               book ''ab c'' ''x.y/z'' Undefined])
      (Some [0]) (Some [1]))
     = Some ([Num 9007199254740992], \<lparr>exactMatched = 1, fuzzyMatched = 0, newCount = 0\<rparr>)"
  by (simp add: run_eval score_same js_def)

subsection \<open>C5: resubmitting the current collection\<close>




subsection \<open>C6: every counter of the output is at least 1\<close>

text \<open>
  C6, amended. When every current resource has a \<open>weeks_on_list\<close> that is absent, null, a
  boolean, NaN, the empty string or a number that is not negative (so: no negative
  number, no non-empty string, no array and no object), every new resource has, in every
  result of the script, a \<open>weeks_on_list\<close> that is a number and at least 1; and the script
  returns such a result when all titles and sources are strings or falsy.
\<close>

theorem C6_weeks_at_least_one:
  assumes cnt: "\<forall>c\<in>set cur. usableCounter (weeks_on_list (h c))"
  shows "(\<forall>h' s. mergeAndUpdateResources lower h (Some cur) (Some new) = Some (h', s)
            \<longrightarrow> (\<forall>a\<in>set new. atLeastOne (weeks_on_list (h' a))))
         \<and> ((\<forall>x\<in>set new \<union> set cur. wellFormed (h x))
            \<longrightarrow> (\<exists>h' s. mergeAndUpdateResources lower h (Some cur) (Some new) = Some (h', s)))"
proof -
  let ?zero = "\<lparr>exactMatched = 0, fuzzyMatched = 0, newCount = 0\<rparr>"
  have "\<forall>a\<in>set new. atLeastOne (weeks_on_list (h' a))"
    if "mergeAndUpdateResources lower h (Some cur) (Some new) = Some (h', s)" for h' s
  proof -
    from that have run: "forEachNew lower cur (h, ?zero) new = Some (h', s)"
      by (simp add: merge_Some)
    from forEachNew_weeks [OF run] cnt show ?thesis by simp
  qed
  then show ?thesis using merge_total [of new cur h lower] by blast
qed

text \<open>
  In \<open>variantsHeap\<close> the current counters are 3 and 5, and the new resource gets a counter
  that is at least 1.
\<close>

theorem C6_weeks_at_least_one_witness:
  "usableCounter (weeks_on_list (variantsHeap 0)) \<and> usableCounter (weeks_on_list (variantsHeap 1))
   \<and> (\<exists>h' s. mergeAndUpdateResources asciiLower variantsHeap (Some [0, 1]) (Some [2]) = Some (h', s)
          \<and> atLeastOne (weeks_on_list (h' 2)))"
proof -
  have u0: "usableCounter (weeks_on_list (variantsHeap 0))"
    and u1: "usableCounter (weeks_on_list (variantsHeap 1))"
    by (simp_all add: variantsHeap_def heapOf_def book_fields)
  then have cnt: "\<forall>c\<in>set [0, 1]. usableCounter (weeks_on_list (variantsHeap c))" by simp
  have wf: "\<forall>x\<in>set [2] \<union> set [0, 1]. wellFormed (variantsHeap x)"
    using variants_wellFormed by simp
  note inst = C6_weeks_at_least_one [OF cnt, of asciiLower "[2]"]
  from inst [THEN conjunct2, THEN mp, OF wf] obtain h' s where
    m: "mergeAndUpdateResources asciiLower variantsHeap (Some [0, 1]) (Some [2]) = Some (h', s)"
    by (elim exE)
  from inst [THEN conjunct1, THEN spec, THEN spec, THEN mp, OF m]
  have "atLeastOne (weeks_on_list (h' 2))" by simp
  with m u0 u1 show ?thesis by blast
qed

text \<open>
  The claim as stated fails. A current resource with the counter \<open>"abc"\<close> gives the matched
  new resource the string \<open>"abc1"\<close>, which is not a number; one whose counter is an object
  (\<open>{}\<close>, converted to the string \<open>"[object Object]"\<close>) gives it the string
  \<open>"[object Object]1"\<close>; and one with the counter -5 gives it the counter -4, which is
  below 1.
\<close>

theorem C6_weeks_at_least_one_counterexample:
  "outcome [1] (mergeAndUpdateResources asciiLower
      (heapOf [book ''ab c'' ''x.y/z'' (Str (js ''abc'')), book ''ab c'' ''x.y/z'' Undefined])
      (Some [0]) (Some [1]))
     = Some ([Str (js ''abc1'')], \<lparr>exactMatched = 1, fuzzyMatched = 0, newCount = 0\<rparr>)
   \<and> \<not> atLeastOne (Str (js ''abc1''))
   \<and> outcome [1] (mergeAndUpdateResources asciiLower
      (heapOf [book ''ab c'' ''x.y/z'' (Object (js ''[object Object]'')),
               book ''ab c'' ''x.y/z'' Undefined])
      (Some [0]) (Some [1]))
     = Some ([Str (js ''[object Object]1'')], \<lparr>exactMatched = 1, fuzzyMatched = 0, newCount = 0\<rparr>)
   \<and> \<not> atLeastOne (Str (js ''[object Object]1''))
   \<and> outcome [1] (mergeAndUpdateResources asciiLower
      (heapOf [book ''ab c'' ''x.y/z'' (Num (- 5)), book ''ab c'' ''x.y/z'' Undefined])
      (Some [0]) (Some [1]))
     = Some ([Num (- 4)], \<lparr>exactMatched = 1, fuzzyMatched = 0, newCount = 0\<rparr>)
   \<and> \<not> atLeastOne (Num (- 4))"
  by (simp add: run_eval score_same js_def)

subsection \<open>C7: what the script changes\<close>

text \<open>
  C7. In every result of the script the output collection (the objects at the addresses
  of the new collection) has the length and the order of the input collection, every
  output entry is the input entry with at most its \<open>weeks_on_list\<close> changed (title, source
  and type are those of the input entry), no object outside the new collection is written,
  and so, the two collections sharing no object, the current collection is unchanged; and
  the script returns such a result when all titles and sources are strings or falsy.
\<close>

theorem C7_only_weeks_written:
  "(\<forall>h' s. mergeAndUpdateResources lower h (Some cur) (Some new) = Some (h', s) \<longrightarrow>
       length (map h' new) = length (map h new)
       \<and> (\<forall>i<length new.
             map h' new ! i = (map h new ! i)\<lparr>weeks_on_list := weeks_on_list (map h' new ! i)\<rparr>
             \<and> title (map h' new ! i) = title (map h new ! i)
             \<and> source (map h' new ! i) = source (map h new ! i)
             \<and> type (map h' new ! i) = type (map h new ! i))
       \<and> (\<forall>x. x \<notin> set new \<longrightarrow> h' x = h x)
       \<and> (set new \<inter> set cur = {} \<longrightarrow> map h' cur = map h cur))
   \<and> ((\<forall>x\<in>set new \<union> set cur. wellFormed (h x))
      \<longrightarrow> (\<exists>h' s. mergeAndUpdateResources lower h (Some cur) (Some new) = Some (h', s)))"
proof -
  let ?zero = "\<lparr>exactMatched = 0, fuzzyMatched = 0, newCount = 0\<rparr>"
  have "length (map h' new) = length (map h new)
       \<and> (\<forall>i<length new.
             map h' new ! i = (map h new ! i)\<lparr>weeks_on_list := weeks_on_list (map h' new ! i)\<rparr>
             \<and> title (map h' new ! i) = title (map h new ! i)
             \<and> source (map h' new ! i) = source (map h new ! i)
             \<and> type (map h' new ! i) = type (map h new ! i))
       \<and> (\<forall>x. x \<notin> set new \<longrightarrow> h' x = h x)
       \<and> (set new \<inter> set cur = {} \<longrightarrow> map h' cur = map h cur)"
    if m: "mergeAndUpdateResources lower h (Some cur) (Some new) = Some (h', s)" for h' s
  proof -
    from m have run: "forEachNew lower cur (h, ?zero) new = Some (h', s)"
      by (simp add: merge_Some)
    from forEachNew_frame [OF run] have
      upd: "\<And>x. h' x = (h x)\<lparr>weeks_on_list := weeks_on_list (h' x)\<rparr>" and
      out: "\<And>x. x \<notin> set new \<Longrightarrow> h' x = h x"
      by auto
    have fields: "title (h' x) = title (h x) \<and> source (h' x) = source (h x)
                    \<and> type (h' x) = type (h x)" for x
    proof -
      have "title (h' x) = title ((h x)\<lparr>weeks_on_list := weeks_on_list (h' x)\<rparr>)"
        "source (h' x) = source ((h x)\<lparr>weeks_on_list := weeks_on_list (h' x)\<rparr>)"
        "type (h' x) = type ((h x)\<lparr>weeks_on_list := weeks_on_list (h' x)\<rparr>)"
        using upd [of x] by simp_all
      then show ?thesis by simp
    qed
    have cur: "map h' cur = map h cur" if "set new \<inter> set cur = {}"
      using that out by (auto intro!: map_cong)
    show ?thesis using cur out upd fields by simp
  qed
  then show ?thesis using merge_total [of new cur h lower] by blast
qed

text \<open>
  On \<open>variantsHeap\<close>: the script returns, the new resource keeps its title and becomes the
  input resource with the counter 4, and the two current resources are as before.
\<close>

theorem C7_only_weeks_written_witness:
  "set [2 :: nat] \<inter> set [0, 1] = {}
   \<and> wellFormed (variantsHeap 0) \<and> wellFormed (variantsHeap 1) \<and> wellFormed (variantsHeap 2)
   \<and> (\<exists>h' s. mergeAndUpdateResources asciiLower variantsHeap (Some [0, 1]) (Some [2]) = Some (h', s)
          \<and> h' 2 = (variantsHeap 2)\<lparr>weeks_on_list := Num 4\<rparr>
          \<and> title (h' 2) = Str (js ''ab - c'')
          \<and> map h' [0, 1] = map variantsHeap [0, 1])"
proof -
  have disj: "set [2 :: nat] \<inter> set [0, 1] = {}" by simp
  have wf: "\<forall>x\<in>set [2] \<union> set [0, 1]. wellFormed (variantsHeap x)"
    using variants_wellFormed by simp
  have t: "title (variantsHeap 2) = Str (js ''ab - c'')"
    by (simp add: variantsHeap_def heapOf_def book_fields)
  note inst = C7_only_weeks_written [of asciiLower variantsHeap "[0, 1]" "[2]"]
  from inst [THEN conjunct2, THEN mp, OF wf] obtain h' s where
    m: "mergeAndUpdateResources asciiLower variantsHeap (Some [0, 1]) (Some [2]) = Some (h', s)"
    by (elim exE)
  from variants_run m have w: "weeks_on_list (h' 2) = Num 4"
    by (simp add: outcome_def)
  note body = inst [THEN conjunct1, THEN spec, THEN spec, THEN mp, OF m]
  note upd = body [THEN conjunct2, THEN conjunct1]
  note cur = body [THEN conjunct2, THEN conjunct2, THEN conjunct2]
  from upd [THEN spec, of 0] w t
  have "h' 2 = (variantsHeap 2)\<lparr>weeks_on_list := Num 4\<rparr>" "title (h' 2) = Str (js ''ab - c'')"
    by simp_all
  moreover from cur disj have "map h' [0, 1] = map variantsHeap [0, 1]" by (rule mp)
  ultimately show ?thesis using m disj variants_wellFormed by blast
qed

subsection \<open>C8: the three tallies\<close>

text \<open>
  C8. In every result of the script the three tallies add up to the length of the new
  collection; each pass of the outer loop increments exactly one of them by 1 and leaves
  the other two as they are; and the script returns a result when all titles and sources
  are strings or falsy.
\<close>

theorem C8_tallies_sum:
  "(\<forall>h' s. mergeAndUpdateResources lower h (Some cur) (Some new) = Some (h', s)
      \<longrightarrow> exactMatched s + fuzzyMatched s + newCount s = length new)
   \<and> (\<forall>h0 s0 a h1 s1. updateResource lower cur (h0, s0) a = Some (h1, s1) \<longrightarrow>
         exactMatched s1 = exactMatched s0 + 1 \<and> fuzzyMatched s1 = fuzzyMatched s0
             \<and> newCount s1 = newCount s0
         \<or> exactMatched s1 = exactMatched s0 \<and> fuzzyMatched s1 = fuzzyMatched s0 + 1
             \<and> newCount s1 = newCount s0
         \<or> exactMatched s1 = exactMatched s0 \<and> fuzzyMatched s1 = fuzzyMatched s0
             \<and> newCount s1 = newCount s0 + 1)
   \<and> ((\<forall>x\<in>set new \<union> set cur. wellFormed (h x))
      \<longrightarrow> (\<exists>h' s. mergeAndUpdateResources lower h (Some cur) (Some new) = Some (h', s)))"
proof -
  let ?zero = "\<lparr>exactMatched = 0, fuzzyMatched = 0, newCount = 0\<rparr>"
  have sum: "exactMatched s + fuzzyMatched s + newCount s = length new"
    if "mergeAndUpdateResources lower h (Some cur) (Some new) = Some (h', s)" for h' s
  proof -
    from that have run: "forEachNew lower cur (h, ?zero) new = Some (h', s)"
      by (simp add: merge_Some)
    from forEachNew_count [OF run] show ?thesis by simp
  qed
  have one: "exactMatched s1 = exactMatched s0 + 1 \<and> fuzzyMatched s1 = fuzzyMatched s0
             \<and> newCount s1 = newCount s0
         \<or> exactMatched s1 = exactMatched s0 \<and> fuzzyMatched s1 = fuzzyMatched s0 + 1
             \<and> newCount s1 = newCount s0
         \<or> exactMatched s1 = exactMatched s0 \<and> fuzzyMatched s1 = fuzzyMatched s0
             \<and> newCount s1 = newCount s0 + 1"
    if "updateResource lower cur (h0, s0) a = Some (h1, s1)" for h0 s0 a h1 s1
    using updateResource_SomeD [OF that] by (auto split: if_splits)
  from sum one merge_total [of new cur h lower] show ?thesis by blast
qed

text \<open>On \<open>variantsHeap\<close>, with one new resource, the tallies of the result add up to 1.\<close>

theorem C8_tallies_sum_witness:
  "wellFormed (variantsHeap 0) \<and> wellFormed (variantsHeap 1) \<and> wellFormed (variantsHeap 2)
   \<and> (\<exists>h' s. mergeAndUpdateResources asciiLower variantsHeap (Some [0, 1]) (Some [2]) = Some (h', s)
          \<and> exactMatched s + fuzzyMatched s + newCount s = 1)"
proof -
  have wf: "\<forall>x\<in>set [2] \<union> set [0, 1]. wellFormed (variantsHeap x)"
    using variants_wellFormed by simp
  note inst = C8_tallies_sum [of asciiLower variantsHeap "[0, 1]" "[2]"]
  from inst [THEN conjunct2, THEN conjunct2, THEN mp, OF wf] obtain h' s where
    m: "mergeAndUpdateResources asciiLower variantsHeap (Some [0, 1]) (Some [2]) = Some (h', s)"
    by (elim exE)
  from inst [THEN conjunct1, THEN spec, THEN spec, THEN mp, OF m]
  have "exactMatched s + fuzzyMatched s + newCount s = 1" by simp
  with m variants_wellFormed show ?thesis by blast
qed

subsection \<open>C9: which tally an accepted match increments\<close>

text \<open>
  C9. For every accepted match the new tally is left as it is, and exactly one of the
  other two tallies is incremented: the exact tally when the best score is at least 2,
  and the fuzzy tally for every other accepted match, a weak match of score 1.2 included.
  (The record of the tallies has no fourth counter.)
\<close>

theorem C9_exact_or_fuzzy_tally:
  assumes run: "findBestMatch lower h a initialMatch cur = Some st" and acc: "accepted st"
  shows "\<exists>h' s'. updateResource lower cur (h, s) a = Some (h', s')
           \<and> newCount s' = newCount s
           \<and> (bestScore st \<ge> 2 \<longrightarrow>
                 exactMatched s' = exactMatched s + 1 \<and> fuzzyMatched s' = fuzzyMatched s)
           \<and> (bestScore st < 2 \<longrightarrow>
                 exactMatched s' = exactMatched s \<and> fuzzyMatched s' = fuzzyMatched s + 1)"
proof -
  from findBestMatch_label [OF run initial_label]
  have lab: "matchType st = Exact \<longleftrightarrow> bestScore st \<ge> 2" .
  show ?thesis
    using acc lab by (auto simp: updateResource_eq [OF run])
qed

text \<open>
  In \<open>weakHeap\<close> the best score is 1.2 (title similarity 0.7, same URL), the label is weak,
  and the match is counted in the fuzzy tally.
\<close>

theorem C9_exact_or_fuzzy_tally_witness:
  "findBestMatch asciiLower weakHeap 1 initialMatch [0]
     = Some \<lparr>bestMatch = Some 0, bestScore = 12 / 10, matchType = Weak\<rparr>
   \<and> accepted \<lparr>bestMatch = Some 0, bestScore = 12 / 10, matchType = Weak\<rparr>
   \<and> (\<exists>h' s'. updateResource asciiLower [0] (weakHeap, noStats) 1 = Some (h', s')
          \<and> exactMatched s' = 0 \<and> fuzzyMatched s' = 1 \<and> newCount s' = 0)"
proof -
  let ?st = "\<lparr>bestMatch = Some 0, bestScore = 12 / 10, matchType = Weak\<rparr>"
  have acc: "accepted ?st" by (simp add: accepted_def)
  from C9_exact_or_fuzzy_tally [OF weak_best acc, of noStats]
  have "\<exists>h' s'. updateResource asciiLower [0] (weakHeap, noStats) 1 = Some (h', s')
          \<and> exactMatched s' = 0 \<and> fuzzyMatched s' = 1 \<and> newCount s' = 0"
  proof (elim exE conjE)
    fix h' s'
    assume u: "updateResource asciiLower [0] (weakHeap, noStats) 1 = Some (h', s')"
      and n: "newCount s' = newCount noStats"
      and f: "bestScore ?st < 2 \<longrightarrow>
                exactMatched s' = exactMatched noStats \<and> fuzzyMatched s' = fuzzyMatched noStats + 1"
    from f have "exactMatched s' = 0 \<and> fuzzyMatched s' = 1" by (simp add: noStats_def)
    with u n show ?thesis by (simp add: noStats_def)
  qed
  with weak_best acc show ?thesis by simp
qed

subsection \<open>C10: the URL alone never makes a match\<close>

text \<open>
  C10. A title similarity below 0.7 gives the combined score 0 whatever the URL
  similarity. So a new resource whose title similarity to every current resource is below
  0.7 scores 0 against each of them and is classified as new (counter 1, new tally
  incremented), also when its source is the source of a current resource.
\<close>

theorem C10_url_alone_never_matches:
  assumes low: "\<forall>c\<in>set cur. \<exists>t. titleSimilarity lower (title (h a)) (title (h c)) = Some t
                                   \<and> t < 7 / 10"
    and srca: "stringOrFalsy (source (h a))"
    and srcc: "\<forall>c\<in>set cur. stringOrFalsy (source (h c))"
  shows "(\<forall>t u. t < 7 / 10 \<longrightarrow> score t u = 0)
         \<and> (\<forall>c\<in>set cur. resourceScore lower (h a) (h c) = Some 0)
         \<and> updateResource lower cur (h, s) a =
             Some (h(a := (h a)\<lparr>weeks_on_list := Num 1\<rparr>), s\<lparr>newCount := newCount s + 1\<rparr>)"
proof -
  have z: "\<forall>c\<in>set cur. resourceScore lower (h a) (h c) = Some 0"
    using low srca srcc low_title_score [of lower "title (h a)" _ _ "source (h a)" _ "h a"]
    by blast
  from all_zero_is_new [OF z] z show ?thesis by (simp add: score_low_title)
qed

text \<open>
  In \<open>urlOnlyHeap\<close> the new resource has the URL of the current resource (URL similarity 1)
  and an unrelated title (title similarity 0): it is counted as new.
\<close>

theorem C10_url_alone_never_matches_witness:
  "titleSimilarity asciiLower (title (urlOnlyHeap 1)) (title (urlOnlyHeap 0)) = Some 0
   \<and> urlSimilarity asciiLower (source (urlOnlyHeap 1)) (source (urlOnlyHeap 0)) = Some 1
   \<and> stringOrFalsy (source (urlOnlyHeap 1)) \<and> stringOrFalsy (source (urlOnlyHeap 0))
   \<and> outcome [1] (updateResource asciiLower [0] (urlOnlyHeap, noStats) 1)
       = Some ([Num 1], \<lparr>exactMatched = 0, fuzzyMatched = 0, newCount = 1\<rparr>)"
proof -
  have h0: "urlOnlyHeap 0 = book ''ab c'' ''x.y/z'' (Num 3)"
    and h1: "urlOnlyHeap (Suc 0) = book ''qqq'' ''x.y/z'' Undefined"
    by (simp_all add: urlOnlyHeap_def heapOf_def)
  have t: "titleSimilarity asciiLower (title (urlOnlyHeap 1)) (title (urlOnlyHeap 0)) = Some 0"
    by (simp add: h0 h1 book_fields title_unrelated)
  have u: "urlSimilarity asciiLower (source (urlOnlyHeap 1)) (source (urlOnlyHeap 0)) = Some 1"
    by (simp add: h0 h1 book_fields url_same)
  have sa: "stringOrFalsy (source (urlOnlyHeap 1))"
    and s0: "stringOrFalsy (source (urlOnlyHeap 0))"
    by (simp_all add: h0 h1 book_fields)
  from t have low: "\<forall>c\<in>set [0]. \<exists>t. titleSimilarity asciiLower (title (urlOnlyHeap 1))
                                         (title (urlOnlyHeap c)) = Some t \<and> t < 7 / 10"
    by simp
  from s0 have sc: "\<forall>c\<in>set [0]. stringOrFalsy (source (urlOnlyHeap c))" by simp
  note inst = C10_url_alone_never_matches [OF low sa sc, of noStats]
  from inst [THEN conjunct2, THEN conjunct2]
  have "outcome [1] (updateResource asciiLower [0] (urlOnlyHeap, noStats) 1)
       = Some ([Num 1], \<lparr>exactMatched = 0, fuzzyMatched = 0, newCount = 1\<rparr>)"
    by (simp add: outcome_def noStats_def)
  with t u sa s0 show ?thesis by simp
qed

end
